theory Spec2Isabelle
  imports Complex_Main "HOL-Library.AList" "HOL-Library.Sublist"
begin

section \<open>Data model (types.ts)\<close>

text \<open>
  Values produced by \<^verbatim>\<open>JSON.parse\<close>. The language-model services answer with JSON whose
  shape the code does not check, so the fields copied from an answer keep this type;
  \<open>None\<close> of type \<open>json option\<close> is JavaScript's \<^verbatim>\<open>undefined\<close>.
\<close>

datatype json =
    JNull
  | JBool bool
  | JNum rat
  | JStr string
  | JArr "json list"
  | JObj "(string \<times> json) list"

text \<open>
  \<^verbatim>\<open>interface ArxivPaper\<close> and \<^verbatim>\<open>interface AnalyzedPaper extends ArxivPaper\<close>. The fields
  \<^verbatim>\<open>id\<close> and \<^verbatim>\<open>value\<close> are named \<open>paper_id\<close> and \<open>paper_value\<close> here.
\<close>

record ArxivPaper =
  paper_id :: string
  title :: string
  summary :: string
  authors :: "string list"
  published :: string
  link :: string
  categories :: "string list"
  comment :: "string option"

record AnalyzedPaper = ArxivPaper +
  relevanceScore :: "json option"
  tags :: json
  hasCode :: "json option"
  isAccepted :: "json option"
  reasoning :: "json option"
  innovations :: "json option"
  methodology :: "json option"
  paper_value :: "json option"

section \<open>The stage store (data/storage.ts)\<close>

subsection \<open>localStorage\<close>

text \<open>
  What a key of the store holds. The code stores \<^verbatim>\<open>JSON.stringify\<close> of a
  \<^verbatim>\<open>RawDataStorage\<close>, a \<^verbatim>\<open>FilteredDataStorage\<close>, a \<^verbatim>\<open>DailyReport\<close> or the manifest (an array
  of date strings); \<open>OtherJson\<close> is any other text that \<^verbatim>\<open>JSON.parse\<close> accepts and that is
  not an array, \<open>NotJson\<close> a text it rejects (or the empty text). Arrays of anything but
  strings are not represented.
\<close>

datatype blob =
    RawFile string "ArxivPaper list"
  | FilteredFile string "AnalyzedPaper list"
  | ReportFile string nat "AnalyzedPaper list"
  | ManifestFile "string list"
  | OtherJson string
  | NotJson string

text \<open>
  \<^verbatim>\<open>localStorage\<close> is a list of entries in the order \<^verbatim>\<open>localStorage.key(i)\<close> enumerates them:
  \<^verbatim>\<open>setItem\<close> overwrites an existing key in place and appends a new one, \<^verbatim>\<open>removeItem\<close>
  takes the entry out and the later entries move up. Writes are taken to succeed (no
  quota).
\<close>

type_synonym store = "(string \<times> blob) list"

definition setItem :: "string \<Rightarrow> blob \<Rightarrow> store \<Rightarrow> store" where
  "setItem k v s = AList.update k v s"

definition removeItem :: "string \<Rightarrow> store \<Rightarrow> store" where
  "removeItem k s = AList.delete k s"

definition getItem :: "store \<Rightarrow> string \<Rightarrow> blob option" where
  "getItem s k = map_of s k"

definition key :: "store \<Rightarrow> nat \<Rightarrow> string option" where
  "key s i = (if i < length s then Some (fst (s ! i)) else None)"

definition keys :: "store \<Rightarrow> string set" where
  "keys s = fst ` set s"

definition startsWith :: "string \<Rightarrow> string \<Rightarrow> bool" where
  "startsWith str pre = prefix pre str"

subsection \<open>Paths\<close>

definition PATH_RAW_DIR :: string where
  "PATH_RAW_DIR = ''data/raw/''"

definition PATH_FILTERED_DIR :: string where
  "PATH_FILTERED_DIR = ''data/filtered/''"

definition PATH_REPORTS_DIR :: string where
  "PATH_REPORTS_DIR = ''data/reports/''"

definition PATH_MANIFEST :: string where
  "PATH_MANIFEST = ''data/reports/manifest.json''"

definition getRawPath :: "string \<Rightarrow> string" where
  "getRawPath date = PATH_RAW_DIR @ date @ ''.json''"

definition getFilteredPath :: "string \<Rightarrow> string" where
  "getFilteredPath date = PATH_FILTERED_DIR @ date @ ''.json''"

definition getReportPath :: "string \<Rightarrow> string" where
  "getReportPath date = PATH_REPORTS_DIR @ date @ ''.json''"

subsection \<open>cleanupDirectory\<close>

text \<open>
  \<^verbatim>\<open>for (let i = 0; i < localStorage.length; i++)\<close>: the loop reads the length again at
  every turn and always moves to the next index, also after a removal. \<^verbatim>\<open>key && ...\<close> is
  false for the empty key.
\<close>

function cleanupLoop :: "string \<Rightarrow> string \<Rightarrow> nat \<Rightarrow> store \<Rightarrow> store" where
  "cleanupLoop dirPrefix currentFile i s =
     (if i < length s then
        (case key s i of
           None \<Rightarrow> cleanupLoop dirPrefix currentFile (i + 1) s
         | Some k \<Rightarrow>
             if k \<noteq> [] \<and> startsWith k dirPrefix \<and> k \<noteq> currentFile
             then cleanupLoop dirPrefix currentFile (i + 1) (removeItem k s)
             else cleanupLoop dirPrefix currentFile (i + 1) s)
      else s)"
  by pat_completeness auto
termination
proof (relation "measure (\<lambda>(dirPrefix, currentFile, i, s). length s - i)")
  show "wf (measure (\<lambda>(dirPrefix, currentFile, i, s). length s - i))"
    by simp
next
  fix dirPrefix currentFile :: string and i :: nat and s :: store
  assume "i < length s"
  then show "((dirPrefix, currentFile, i + 1, s), (dirPrefix, currentFile, i, s))
      \<in> measure (\<lambda>(dirPrefix, currentFile, i, s). length s - i)"
    by simp
next
  fix dirPrefix currentFile k :: string and i :: nat and s :: store
  assume "i < length s"
  moreover have "length (removeItem k s) \<le> length s"
    by (simp add: removeItem_def length_delete_le)
  ultimately show "((dirPrefix, currentFile, i + 1, removeItem k s), (dirPrefix, currentFile, i, s))
      \<in> measure (\<lambda>(dirPrefix, currentFile, i, s). length s - i)"
    by simp
next
  fix dirPrefix currentFile :: string and i :: nat and s :: store
  assume "i < length s"
  then show "((dirPrefix, currentFile, i + 1, s), (dirPrefix, currentFile, i, s))
      \<in> measure (\<lambda>(dirPrefix, currentFile, i, s). length s - i)"
    by simp
qed

declare cleanupLoop.simps [simp del]

definition cleanupDirectory :: "string \<Rightarrow> string \<Rightarrow> store \<Rightarrow> store" where
  "cleanupDirectory dirPrefix currentFile s = cleanupLoop dirPrefix currentFile 0 s"

subsection \<open>Raw and filtered snapshots\<close>

text \<open>
  \<open>todayStr\<close> is \<^verbatim>\<open>new Date().toISOString().split('T')[0]\<close>, read from the clock. The upload
  to the mirror (\<^verbatim>\<open>uploadToCloud\<close>) catches its own errors and does not touch the store.
\<close>

definition saveRawData :: "string \<Rightarrow> ArxivPaper list \<Rightarrow> store \<Rightarrow> store" where
  "saveRawData todayStr papers s =
     (let filePath = getRawPath todayStr;
          s1 = setItem filePath (RawFile todayStr papers) s
      in cleanupDirectory PATH_RAW_DIR filePath s1)"

definition saveFilteredData :: "string \<Rightarrow> AnalyzedPaper list \<Rightarrow> store \<Rightarrow> store" where
  "saveFilteredData todayStr papers s =
     (let filePath = getFilteredPath todayStr;
          s1 = setItem filePath (FilteredFile todayStr papers) s
      in cleanupDirectory PATH_FILTERED_DIR filePath s1)"

subsection \<open>Reports and the manifest\<close>

text \<open>
  \<^verbatim>\<open>getManifest\<close> returns \<^verbatim>\<open>[]\<close> for a missing or empty entry and when \<^verbatim>\<open>JSON.parse\<close> throws;
  otherwise it returns whatever was parsed. A parsed value that is not an array makes the
  caller's first array method raise a \<^verbatim>\<open>TypeError\<close>.
\<close>

datatype manifest = DateArray "string list" | NonArray

definition getManifest :: "store \<Rightarrow> manifest" where
  "getManifest s =
     (case getItem s PATH_MANIFEST of
        None \<Rightarrow> DateArray []
      | Some (ManifestFile ds) \<Rightarrow> DateArray ds
      | Some (NotJson t) \<Rightarrow> DateArray []
      | Some _ \<Rightarrow> NonArray)"

text \<open>
  \<^verbatim>\<open>saveReport\<close>; \<open>now\<close> is \<^verbatim>\<open>Date.now()\<close>. The \<^verbatim>\<open>TypeError\<close> of a manifest that is not an
  array is caught by the function's own \<^verbatim>\<open>try\<close>, after the report file was written.
\<close>

definition saveReport :: "string \<Rightarrow> nat \<Rightarrow> AnalyzedPaper list \<Rightarrow> store \<Rightarrow> store" where
  "saveReport todayStr now papers s =
     (let filePath = getReportPath todayStr;
          s1 = setItem filePath (ReportFile todayStr now papers) s
      in case getManifest s1 of
           NonArray \<Rightarrow> s1
         | DateArray manifest0 \<Rightarrow>
             let (manifest, s2) =
                   (if todayStr \<notin> set manifest0
                    then (todayStr # manifest0,
                          setItem PATH_MANIFEST (ManifestFile (todayStr # manifest0)) s1)
                    else (manifest0, s1))
             in if length manifest > 7 then
                  let toRemove = drop 7 manifest;
                      toKeep = take 7 manifest;
                      s3 = foldl (\<lambda>st date. removeItem (getReportPath date) st) s2 toRemove
                  in setItem PATH_MANIFEST (ManifestFile toKeep) s3
                else s2)"

text \<open>Consecutive commits of reports, each with its date key, clock reading and papers.\<close>

fun saveReports :: "(string \<times> nat \<times> AnalyzedPaper list) list \<Rightarrow> store \<Rightarrow> store" where
  "saveReports [] s = s"
| "saveReports ((todayStr, now, papers) # calls) s =
     saveReports calls (saveReport todayStr now papers s)"

subsection \<open>Namespaces\<close>

text \<open>
  The keys of a channel are the keys that start with its directory prefix; the report
  snapshots are the keys of \<^verbatim>\<open>data/reports/\<close> other than the manifest.
\<close>

definition namespace :: "string \<Rightarrow> store \<Rightarrow> string list" where
  "namespace dirPrefix s = filter (\<lambda>k. startsWith k dirPrefix) (map fst s)"

definition reportSnapshots :: "store \<Rightarrow> string list" where
  "reportSnapshots s = filter (\<lambda>k. k \<noteq> PATH_MANIFEST) (namespace PATH_REPORTS_DIR s)"

text \<open>
  The keys \<^verbatim>\<open>cleanupDirectory\<close> is to delete: those its condition
  \<^verbatim>\<open>key && key.startsWith(dirPrefix) && key !== currentFile\<close> holds for.
\<close>

definition stale :: "string \<Rightarrow> string \<Rightarrow> string \<Rightarrow> bool" where
  "stale dirPrefix currentFile k \<longleftrightarrow> k \<noteq> [] \<and> startsWith k dirPrefix \<and> k \<noteq> currentFile"

subsection \<open>The retention invariant\<close>

text \<open>
  What a sequence of report commits leaves, as an invariant of the store: the manifest
  lists the dates of the last seven commits, newest first, the report snapshots are the
  files of these dates, and each holds what its commit wrote.
\<close>

type_synonym commit = "string \<times> nat \<times> AnalyzedPaper list"

definition retained :: "commit list \<Rightarrow> commit list" where
  "retained calls = take 7 (rev calls)"

definition reportInv :: "commit list \<Rightarrow> store \<Rightarrow> bool" where
  "reportInv calls s \<longleftrightarrow>
     getManifest s = DateArray (map fst (retained calls))
     \<and> set (reportSnapshots s) = getReportPath ` fst ` set (retained calls)
     \<and> (\<forall>(d, now, papers) \<in> set (retained calls).
           getItem s (getReportPath d) = Some (ReportFile d now papers))"

section \<open>The source fetcher (services/arxivService.ts)\<close>

datatype error = TransportError | MissingApiKey | ApiError | SyntaxError | TypeError

subsection \<open>JavaScript's Set, Map and slice\<close>

text \<open>
  \<^verbatim>\<open>Array.from(new Set(xs))\<close> keeps the first occurrence of every element, in order.
  \<^verbatim>\<open>new Map(pairs)\<close> keeps a key at the place of its first occurrence with the value of its
  last one. \<^verbatim>\<open>xs.slice(a, b)\<close> for \<open>0 \<le> a \<le> b\<close>.
\<close>

definition setAdd :: "'a list \<Rightarrow> 'a \<Rightarrow> 'a list" where
  "setAdd seen x = (if x \<in> set seen then seen else seen @ [x])"

definition arrayFromSet :: "'a list \<Rightarrow> 'a list" where
  "arrayFromSet xs = foldl setAdd [] xs"

definition newMap :: "('k \<times> 'v) list \<Rightarrow> ('k \<times> 'v) list" where
  "newMap pairs = foldl (\<lambda>m (k, v). AList.update k v m) [] pairs"

definition mapValues :: "('k \<times> 'v) list \<Rightarrow> 'v list" where
  "mapValues m = map snd m"

definition slice :: "nat \<Rightarrow> nat \<Rightarrow> 'a list \<Rightarrow> 'a list" where
  "slice a b xs = take (b - a) (drop a xs)"

subsection \<open>extractIdsFromHtml\<close>

text \<open>
  The pattern is \<^verbatim>\<open>href="\/abs\/(\d+\.\d+)"\<close> with the global flag. \<open>matchAt\<close> matches it at
  the head of the text and returns the captured group and the text after the match; the
  two greedy digit runs cannot give digits back, since a dot and a quote follow them.
  \<open>execAll\<close> is the \<^verbatim>\<open>while ((match = regex.exec(html)) !== null)\<close> loop: the next search
  starts where the last match ended, and a position without a match is skipped.
\<close>

definition isDigit :: "char \<Rightarrow> bool" where
  "isDigit c = (c \<in> set ''0123456789'')"

definition hrefAbs :: string where
  "hrefAbs = ''href='' @ [CHR 0x22] @ ''/abs/''"

fun stripPrefix :: "string \<Rightarrow> string \<Rightarrow> string option" where
  "stripPrefix [] s = Some s"
| "stripPrefix (p # ps) [] = None"
| "stripPrefix (p # ps) (c # cs) = (if p = c then stripPrefix ps cs else None)"

definition matchAt :: "string \<Rightarrow> (string \<times> string) option" where
  "matchAt s =
     (case stripPrefix hrefAbs s of
        None \<Rightarrow> None
      | Some r \<Rightarrow>
          let d1 = takeWhile isDigit r; r1 = dropWhile isDigit r in
          if d1 = [] then None
          else (case r1 of
                  [] \<Rightarrow> None
                | c # r2 \<Rightarrow>
                    if c \<noteq> CHR ''.'' then None
                    else let d2 = takeWhile isDigit r2; r3 = dropWhile isDigit r2 in
                      if d2 = [] then None
                      else (case r3 of
                              [] \<Rightarrow> None
                            | q # r4 \<Rightarrow>
                                if q \<noteq> CHR 0x22 then None
                                else Some (d1 @ ''.'' @ d2, r4))))"

lemma stripPrefix_length: "stripPrefix p s = Some r \<Longrightarrow> length r \<le> length s"
  by (induction p s rule: stripPrefix.induct) (auto split: if_splits)

lemma matchAt_shorter: "matchAt s = Some (m, rest) \<Longrightarrow> length rest < length s"
proof -
  assume a: "matchAt s = Some (m, rest)"
  then obtain r where r: "stripPrefix hrefAbs s = Some r"
    by (auto simp add: matchAt_def split: option.splits)
  obtain c r2 where r1: "dropWhile isDigit r = c # r2"
    using a r by (auto simp add: matchAt_def Let_def split: list.splits if_splits)
  obtain q where r3: "dropWhile isDigit r2 = q # rest"
    using a r r1 by (auto simp add: matchAt_def Let_def split: list.splits if_splits)
  have "length rest < length r2"
    using length_dropWhile_le [of isDigit r2] r3 by simp
  also have "length r2 < length r"
    using length_dropWhile_le [of isDigit r] r1 by simp
  also have "length r \<le> length s"
    using r by (rule stripPrefix_length)
  finally show ?thesis .
qed

function execAll :: "string \<Rightarrow> string list" where
  "execAll s =
     (if s = [] then []
      else (case matchAt s of
              Some (m, rest) \<Rightarrow> m # execAll rest
            | None \<Rightarrow> execAll (tl s)))"
  by pat_completeness auto
termination
  by (relation "measure length") (auto simp add: matchAt_shorter)

declare execAll.simps [simp del]

definition extractIdsFromHtml :: "string \<Rightarrow> string list" where
  "extractIdsFromHtml html = arrayFromSet (execAll html)"

subsection \<open>The JavaScript runtime's dates\<close>

text \<open>
  A \<^verbatim>\<open>Date\<close> is its time value in milliseconds, \<open>None\<close> for an invalid date (\<^verbatim>\<open>getTime()\<close> is
  then \<^verbatim>\<open>NaN\<close>). How a text is read as a date and the offset of local time belong to the
  runtime: \<open>dateParse\<close> is \<^verbatim>\<open>new Date(text)\<close>, \<open>localTZA t\<close> the offset of local time from UTC
  at the instant \<open>t\<close>, in milliseconds. \<^verbatim>\<open>getDay()\<close> is ECMAScript's
  \<^verbatim>\<open>WeekDay(LocalTime(t))\<close>, with 0 for Sunday, and \<^verbatim>\<open>NaN\<close> for an invalid date.
\<close>

record runtime =
  dateParse :: "string \<Rightarrow> int option"
  localTZA :: "int \<Rightarrow> int"

definition msPerDay :: int where
  "msPerDay = 1000 * 3600 * 24"

definition getDay :: "runtime \<Rightarrow> int option \<Rightarrow> int option" where
  "getDay rt d = map_option (\<lambda>t. ((t + localTZA rt t) div msPerDay + 4) mod 7) d"

text \<open>
  \<^verbatim>\<open>diffTime / (1000 * 3600 * 24)\<close> for
  \<^verbatim>\<open>diffTime = newestPaperDate.getTime() - paperDate.getTime()\<close>: \<open>None\<close> is \<^verbatim>\<open>NaN\<close>, which
  arithmetic passes on and which makes every comparison false. The quotient is kept exact
  here. The code computes it in double precision and compares it with the doubles
  \<^verbatim>\<open>1.2\<close> and \<^verbatim>\<open>4.0\<close>; for a whole number of milliseconds the rounded comparison has the
  outcome of the exact one with 6/5 and 4, two quotients being at least 1/86400000 apart.
\<close>

definition diffDays :: "int option \<Rightarrow> int option \<Rightarrow> rat option" where
  "diffDays newest paperDate =
     (case (newest, paperDate) of
        (Some a, Some b) \<Rightarrow> Some (of_int (a - b) / of_int msPerDay)
      | _ \<Rightarrow> None)"

definition exceeds :: "rat option \<Rightarrow> rat \<Rightarrow> bool" where
  "exceeds d timeWindow = (case d of None \<Rightarrow> False | Some x \<Rightarrow> x > timeWindow)"

subsection \<open>fetchPapersFallback\<close>

text \<open>
  The state of the paging loop. \<open>newestPaperDate = None\<close> is \<^verbatim>\<open>null\<close>; \<open>requested\<close> is not a
  variable of the code: it records the offsets the loop has asked the feed for.
\<close>

record fallback_state =
  allPapers :: "ArxivPaper list"
  newestPaperDate :: "int option option"
  timeWindowDays :: rat
  requested :: "nat list"

definition totalToFetch :: nat where
  "totalToFetch = 1000"

definition batchSize :: nat where
  "batchSize = 100"

text \<open>
  The walk over one page, \<^verbatim>\<open>for (const paper of papers)\<close>; it returns the anchor, the
  accepted papers and \<^verbatim>\<open>stopFetching\<close>.
\<close>

fun walk :: "runtime \<Rightarrow> rat \<Rightarrow> ArxivPaper list \<Rightarrow> int option option \<Rightarrow> ArxivPaper list
    \<Rightarrow> int option option \<times> ArxivPaper list \<times> bool" where
  "walk rt timeWindow [] newest relevantPapers = (newest, relevantPapers, False)"
| "walk rt timeWindow (paper # rest) newest relevantPapers =
     (let paperDate = dateParse rt (published paper);
          newest' = (case newest of None \<Rightarrow> paperDate | Some d \<Rightarrow> d)
      in if exceeds (diffDays newest' paperDate) timeWindow
         then (Some newest', relevantPapers, True)
         else walk rt timeWindow rest (Some newest') (relevantPapers @ [paper]))"

text \<open>
  The anchor and the window, set on the first page that has papers
  (\<^verbatim>\<open>if (!newestPaperDate && papers.length > 0)\<close>; a \<^verbatim>\<open>Date\<close> object is truthy also when it
  is invalid).
\<close>

definition anchor :: "runtime \<Rightarrow> ArxivPaper list \<Rightarrow> fallback_state \<Rightarrow> fallback_state" where
  "anchor rt papers st =
     (case (newestPaperDate st, papers) of
        (None, first # _) \<Rightarrow>
          let newest = dateParse rt (published first);
              dayOfWeek = getDay rt newest
          in if dayOfWeek = Some 1
             then st\<lparr>newestPaperDate := Some newest, timeWindowDays := 4\<rparr>
             else st\<lparr>newestPaperDate := Some newest, timeWindowDays := 6 / 5\<rparr>
      | _ \<Rightarrow> st)"

text \<open>
  The feed answers a request for the page at an offset with the parsed papers, or the
  request fails (\<^verbatim>\<open>fetchWithProxies\<close> throws; the \<^verbatim>\<open>catch\<close> logs and the loop goes on with the
  next offset). An empty page ends the loop.
\<close>

function fallbackLoop :: "runtime \<Rightarrow> (nat \<Rightarrow> error + ArxivPaper list) \<Rightarrow> nat \<Rightarrow> fallback_state
    \<Rightarrow> fallback_state" where
  "fallbackLoop rt feed start st =
     (if start < totalToFetch then
        (let st0 = st\<lparr>requested := requested st @ [start]\<rparr> in
         case feed start of
           Inl e \<Rightarrow> fallbackLoop rt feed (start + batchSize) st0
         | Inr papers \<Rightarrow>
             if length papers = 0 then st0
             else
               let st1 = anchor rt papers st0;
                   (newest, relevantPapers, stopFetching) =
                      walk rt (timeWindowDays st1) papers (newestPaperDate st1) [];
                   st2 = st1\<lparr>allPapers := allPapers st1 @ relevantPapers,
                             newestPaperDate := newest\<rparr>
               in if stopFetching then st2
                  else fallbackLoop rt feed (start + batchSize) st2)
      else st)"
  by pat_completeness auto
termination
  by (relation "measure (\<lambda>(rt, feed, start, st). totalToFetch - start)")
    (auto simp add: batchSize_def)

declare fallbackLoop.simps [simp del]

definition initialState :: fallback_state where
  "initialState = \<lparr>allPapers = [], newestPaperDate = None, timeWindowDays = 6 / 5,
     requested = []\<rparr>"

definition fallbackRun :: "runtime \<Rightarrow> (nat \<Rightarrow> error + ArxivPaper list) \<Rightarrow> fallback_state" where
  "fallbackRun rt feed = fallbackLoop rt feed 0 initialState"

definition fetchPapersFallback :: "runtime \<Rightarrow> (nat \<Rightarrow> error + ArxivPaper list) \<Rightarrow> ArxivPaper list"
  where
  "fetchPapersFallback rt feed =
     (let allPapers = allPapers (fallbackRun rt feed);
          uniquePapers = mapValues (newMap (map (\<lambda>item. (paper_id item, item)) allPapers))
      in uniquePapers)"

subsection \<open>fetchLatestPapers\<close>

text \<open>
  \<open>listing\<close> answers the request for a listing page with its HTML, \<open>details\<close> the request
  for the records of a chunk of identifiers with the parsed records; either request may
  fail. A failed scrape counts as no identifiers, a failed chunk as no records. Nothing
  else in the \<^verbatim>\<open>try\<close> block can throw.
\<close>

definition listUrls :: "string list" where
  "listUrls = [''https://arxiv.org/list/cs.AI/new'', ''https://arxiv.org/list/cs.CV/new'']"

definition chunkSize :: nat where
  "chunkSize = 40"

definition scrape :: "(string \<Rightarrow> error + string) \<Rightarrow> string \<Rightarrow> string list" where
  "scrape listing url = (case listing url of Inl e \<Rightarrow> [] | Inr html \<Rightarrow> extractIdsFromHtml html)"

function chunkLoop :: "(string list \<Rightarrow> error + ArxivPaper list) \<Rightarrow> string list \<Rightarrow> nat
    \<Rightarrow> ArxivPaper list \<Rightarrow> ArxivPaper list" where
  "chunkLoop details uniqueIds i chunkedPapers =
     (if i < length uniqueIds then
        (let chunk = slice i (i + chunkSize) uniqueIds in
         case details chunk of
           Inr papers \<Rightarrow> chunkLoop details uniqueIds (i + chunkSize) (chunkedPapers @ papers)
         | Inl e \<Rightarrow> chunkLoop details uniqueIds (i + chunkSize) chunkedPapers)
      else chunkedPapers)"
  by pat_completeness auto
termination
  by (relation "measure (\<lambda>(details, uniqueIds, i, chunkedPapers). length uniqueIds - i)")
    (auto simp add: chunkSize_def)

declare chunkLoop.simps [simp del]

definition uniqueIdsOf :: "(string \<Rightarrow> error + string) \<Rightarrow> string list" where
  "uniqueIdsOf listing = arrayFromSet (concat (map (scrape listing) listUrls))"

definition fetchLatestPapers :: "runtime \<Rightarrow> (string \<Rightarrow> error + string)
    \<Rightarrow> (string list \<Rightarrow> error + ArxivPaper list) \<Rightarrow> (nat \<Rightarrow> error + ArxivPaper list)
    \<Rightarrow> ArxivPaper list" where
  "fetchLatestPapers rt listing details feed =
     (let uniqueIds = uniqueIdsOf listing in
      if length uniqueIds = 0 then fetchPapersFallback rt feed
      else chunkLoop details uniqueIds 0 [])"

subsection \<open>Notions the properties of the fetcher are stated with\<close>

text \<open>
  The acceptance window as a function of the anchor's date: four days for a Monday
  (\<^verbatim>\<open>getDay() === 1\<close>), 1.2 days otherwise.
\<close>

definition windowOf :: "runtime \<Rightarrow> int option \<Rightarrow> rat" where
  "windowOf rt anchorDate = (if getDay rt anchorDate = Some 1 then 4 else 6 / 5)"

text \<open>
  The first page the feed delivers: requests that fail are passed over, up to the ceiling.
  The anchor of a run is the date of the first record of that page, if it has one.
\<close>

function firstAnswer :: "(nat \<Rightarrow> error + ArxivPaper list) \<Rightarrow> nat \<Rightarrow> ArxivPaper list option" where
  "firstAnswer feed start =
     (if start < totalToFetch then
        (case feed start of
           Inl e \<Rightarrow> firstAnswer feed (start + batchSize)
         | Inr papers \<Rightarrow> Some papers)
      else None)"
  by pat_completeness auto

termination
  by (relation "measure (\<lambda>(feed, start). totalToFetch - start)") (auto simp add: batchSize_def)

declare firstAnswer.simps [simp del]

definition anchorOf :: "runtime \<Rightarrow> (nat \<Rightarrow> error + ArxivPaper list) \<Rightarrow> int option option" where
  "anchorOf rt feed =
     (case firstAnswer feed 0 of
        Some (first # rest) \<Rightarrow> Some (dateParse rt (published first))
      | _ \<Rightarrow> None)"

text \<open>
  The test that ends a walk, \<^verbatim>\<open>diffDays > timeWindowDays\<close>, for a paper under an anchor; and
  \<^verbatim>\<open>diffDays <= timeWindowDays\<close>, which is false as well when the elapsed days are \<^verbatim>\<open>NaN\<close>.
\<close>

definition tooOld :: "runtime \<Rightarrow> int option \<Rightarrow> rat \<Rightarrow> ArxivPaper \<Rightarrow> bool" where
  "tooOld rt a w paper = exceeds (diffDays a (dateParse rt (published paper))) w"

definition withinWindow :: "rat option \<Rightarrow> rat \<Rightarrow> bool" where
  "withinWindow d timeWindow = (case d of None \<Rightarrow> False | Some x \<Rightarrow> x \<le> timeWindow)"

text \<open>
  The chunks \<^verbatim>\<open>fetchLatestPapers\<close> requests, and what a chunk contributes: the records of
  the answer, none when the request fails.
\<close>

function chunksFrom :: "nat \<Rightarrow> 'a list \<Rightarrow> 'a list list" where
  "chunksFrom i xs =
     (if i < length xs then slice i (i + chunkSize) xs # chunksFrom (i + chunkSize) xs else [])"
  by pat_completeness auto

termination
  by (relation "measure (\<lambda>(i, xs). length xs - i)") (auto simp add: chunkSize_def)

declare chunksFrom.simps [simp del]

definition answer :: "(string list \<Rightarrow> error + ArxivPaper list) \<Rightarrow> string list \<Rightarrow> ArxivPaper list" where
  "answer details chunk = (case details chunk of Inl e \<Rightarrow> [] | Inr papers \<Rightarrow> papers)"

section \<open>The relevance filter and the deep analyzer (services/llmService.ts)\<close>

subsection \<open>The chat-completion call\<close>

text \<open>
  One request to the service either fails (the \<^verbatim>\<open>fetch\<close> rejects, the status is not OK, or
  the body is not the expected JSON) or yields the text of the first choice.
  \<^verbatim>\<open>callSiliconFlow\<close> checks the key before it sends anything.
\<close>

datatype response = RequestFailed | Content string

definition callSiliconFlow :: "string \<Rightarrow> response \<Rightarrow> error + string" where
  "callSiliconFlow apiKey r =
     (if apiKey = [] then Inl MissingApiKey
      else (case r of RequestFailed \<Rightarrow> Inl ApiError | Content c \<Rightarrow> Inr c))"

subsection \<open>Reading parsed JSON\<close>

text \<open>
  \<open>truthy\<close> is JavaScript's conversion to a boolean. \<open>getProp v name\<close> is \<^verbatim>\<open>v.name\<close> for the
  property names the code reads (none of them is on a prototype): a \<^verbatim>\<open>TypeError\<close> on
  \<^verbatim>\<open>null\<close>, the member of an object, \<^verbatim>\<open>undefined\<close> otherwise. Once one property of a value
  has been read, the value is not \<^verbatim>\<open>null\<close> and its other properties are read with
  \<open>member\<close>.
\<close>

fun truthy :: "json \<Rightarrow> bool" where
  "truthy JNull = False"
| "truthy (JBool b) = b"
| "truthy (JNum n) = (n \<noteq> 0)"
| "truthy (JStr t) = (t \<noteq> [])"
| "truthy (JArr xs) = True"
| "truthy (JObj kvs) = True"

fun member :: "json \<Rightarrow> string \<Rightarrow> json option" where
  "member (JObj kvs) name = map_of kvs name"
| "member v name = None"

definition getProp :: "json \<Rightarrow> string \<Rightarrow> error + json option" where
  "getProp v name = (if v = JNull then Inl TypeError else Inr (member v name))"

definition orElse :: "json option \<Rightarrow> json \<Rightarrow> json" where
  "orElse v d = (case v of None \<Rightarrow> d | Some x \<Rightarrow> if truthy x then x else d)"

subsection \<open>filterPapersWithLLM\<close>

definition BATCH_SIZE :: nat where
  "BATCH_SIZE = 50"

text \<open>
  One element of \<^verbatim>\<open>results.map(...)\<close>: \<^verbatim>\<open>batch.find(p => p.id === res.id)\<close>, then \<^verbatim>\<open>null\<close> or
  the original record with the five fields of the score object.
\<close>

definition reconcile :: "ArxivPaper list \<Rightarrow> json \<Rightarrow> error + AnalyzedPaper option" where
  "reconcile batch res =
     (case getProp res ''id'' of
        Inl e \<Rightarrow> Inl e
      | Inr resId \<Rightarrow>
          (case find (\<lambda>p. Some (JStr (paper_id p)) = resId) batch of
             None \<Rightarrow> Inr None
           | Some original \<Rightarrow>
               Inr (Some \<lparr>paper_id = paper_id original, title = title original,
                 summary = summary original, authors = authors original,
                 published = published original, link = link original,
                 categories = categories original, comment = comment original,
                 relevanceScore = member res ''relevanceScore'',
                 tags = orElse (member res ''tags'') (JArr []),
                 hasCode = member res ''hasCode'',
                 isAccepted = member res ''isAccepted'',
                 reasoning = member res ''reasoning'',
                 innovations = None, methodology = None, paper_value = None\<rparr>)))"

fun mapResults :: "ArxivPaper list \<Rightarrow> json list \<Rightarrow> error + AnalyzedPaper option list" where
  "mapResults batch [] = Inr []"
| "mapResults batch (res # rest) =
     (case reconcile batch res of
        Inl e \<Rightarrow> Inl e
      | Inr p \<Rightarrow> (case mapResults batch rest of Inl e \<Rightarrow> Inl e | Inr ps \<Rightarrow> Inr (p # ps)))"

text \<open>
  The body of \<^verbatim>\<open>processBatch\<close>'s \<^verbatim>\<open>try\<close>. \<open>parse\<close> is \<^verbatim>\<open>JSON.parse(cleanJsonOutput(content))\<close>,
  \<open>None\<close> when it throws; \<open>respond\<close> is the service's answer to the request made for the
  batch that starts at \<open>startIndex\<close>.
\<close>

definition tryBatch :: "string \<Rightarrow> (string \<Rightarrow> json option) \<Rightarrow> (nat \<Rightarrow> response)
    \<Rightarrow> ArxivPaper list \<Rightarrow> nat \<Rightarrow> error + AnalyzedPaper list" where
  "tryBatch apiKey parse respond batch startIndex =
     (case callSiliconFlow apiKey (respond startIndex) of
        Inl e \<Rightarrow> Inl e
      | Inr content \<Rightarrow>
          (case parse content of
             None \<Rightarrow> Inl SyntaxError
           | Some parsed \<Rightarrow>
               (case getProp parsed ''papers'' of
                  Inl e \<Rightarrow> Inl e
                | Inr papersField \<Rightarrow>
                    (case orElse papersField parsed of
                       JArr results \<Rightarrow>
                         (case mapResults batch results of
                            Inl e \<Rightarrow> Inl e
                          | Inr ps \<Rightarrow> Inr (List.map_filter (\<lambda>p. p) ps))
                     | _ \<Rightarrow> Inr []))))"

definition processBatch :: "string \<Rightarrow> (string \<Rightarrow> json option) \<Rightarrow> (nat \<Rightarrow> response)
    \<Rightarrow> ArxivPaper list \<Rightarrow> nat \<Rightarrow> AnalyzedPaper list" where
  "processBatch apiKey parse respond batch startIndex =
     (case tryBatch apiKey parse respond batch startIndex of
        Inl e \<Rightarrow> []
      | Inr ps \<Rightarrow> ps)"

function batchLoop :: "string \<Rightarrow> (string \<Rightarrow> json option) \<Rightarrow> (nat \<Rightarrow> response)
    \<Rightarrow> ArxivPaper list \<Rightarrow> nat \<Rightarrow> AnalyzedPaper list \<Rightarrow> AnalyzedPaper list" where
  "batchLoop apiKey parse respond papers i allFilteredPapers =
     (if i < length papers then
        (let batch = slice i (i + BATCH_SIZE) papers;
             batchResults = processBatch apiKey parse respond batch i
         in batchLoop apiKey parse respond papers (i + BATCH_SIZE)
              (allFilteredPapers @ batchResults))
      else allFilteredPapers)"
  by pat_completeness auto
termination
  by (relation "measure (\<lambda>(apiKey, parse, respond, papers, i, acc). length papers - i)")
    (auto simp add: BATCH_SIZE_def)

declare batchLoop.simps [simp del]

text \<open>
  The promise \<^verbatim>\<open>filterPapersWithLLM\<close> returns: \<open>Inl\<close> would be a rejection.
\<close>

definition filterPapersWithLLM :: "ArxivPaper list \<Rightarrow> string \<Rightarrow> (string \<Rightarrow> json option)
    \<Rightarrow> (nat \<Rightarrow> response) \<Rightarrow> error + AnalyzedPaper list" where
  "filterPapersWithLLM papers apiKey parse respond =
     Inr (batchLoop apiKey parse respond papers 0 [])"

subsection \<open>deepAnalyzePapersWithLLM\<close>

text \<open>
  The body of \<^verbatim>\<open>analyzeSingle\<close>'s \<^verbatim>\<open>try\<close> and its \<^verbatim>\<open>catch\<close>, which returns the paper as it
  came. \<open>respond i\<close> is the service's answer to the request made for the paper at
  position \<open>i\<close>.
\<close>

definition tryAnalyze :: "string \<Rightarrow> (string \<Rightarrow> json option) \<Rightarrow> response \<Rightarrow> AnalyzedPaper
    \<Rightarrow> error + AnalyzedPaper" where
  "tryAnalyze apiKey parse r paper =
     (case callSiliconFlow apiKey r of
        Inl e \<Rightarrow> Inl e
      | Inr content \<Rightarrow>
          (case parse content of
             None \<Rightarrow> Inl SyntaxError
           | Some analysis \<Rightarrow>
               (case getProp analysis ''innovations'' of
                  Inl e \<Rightarrow> Inl e
                | Inr inno \<Rightarrow>
                    Inr (paper\<lparr>innovations := inno,
                      methodology := member analysis ''methodology'',
                      paper_value := member analysis ''value''\<rparr>))))"

definition analyzeSingle :: "string \<Rightarrow> (string \<Rightarrow> json option) \<Rightarrow> response \<Rightarrow> AnalyzedPaper
    \<Rightarrow> AnalyzedPaper" where
  "analyzeSingle apiKey parse r paper =
     (case tryAnalyze apiKey parse r paper of Inl e \<Rightarrow> paper | Inr analyzed \<Rightarrow> analyzed)"

text \<open>
  \<^verbatim>\<open>Promise.all(papers.map(analyzeSingle))\<close>: the calls share no state, and the array of
  results has the order of the array of promises.
\<close>

definition deepAnalyzePapersWithLLM :: "AnalyzedPaper list \<Rightarrow> string \<Rightarrow> (string \<Rightarrow> json option)
    \<Rightarrow> (nat \<Rightarrow> response) \<Rightarrow> error + AnalyzedPaper list" where
  "deepAnalyzePapersWithLLM papers apiKey parse respond =
     Inr (map (\<lambda>(i, paper). analyzeSingle apiKey parse (respond i) paper)
            (enumerate 0 papers))"

subsection \<open>Notions the properties of the two stages are stated with\<close>

text \<open>
  The batches \<^verbatim>\<open>filterPapersWithLLM\<close> makes, each with the index it starts at; the identifier a
  score object carries (\<^verbatim>\<open>res.id\<close>, for a value that is not \<^verbatim>\<open>null\<close>); and the identifiers of
  a batch as the comparison \<^verbatim>\<open>p.id === res.id\<close> sees them.
\<close>

function batchesFrom :: "nat \<Rightarrow> 'a list \<Rightarrow> (nat \<times> 'a list) list" where
  "batchesFrom i xs =
     (if i < length xs then (i, slice i (i + BATCH_SIZE) xs) # batchesFrom (i + BATCH_SIZE) xs
      else [])"
  by pat_completeness auto

termination
  by (relation "measure (\<lambda>(i, xs). length xs - i)") (auto simp add: BATCH_SIZE_def)

declare batchesFrom.simps [simp del]

definition scoredId :: "json \<Rightarrow> json option" where
  "scoredId res = member res ''id''"

definition batchIds :: "ArxivPaper list \<Rightarrow> json option set" where
  "batchIds batch = (\<lambda>p. Some (JStr (paper_id p))) ` set batch"

section \<open>Example inputs\<close>

text \<open>Nine daily commits, as in the history-trim scenario.\<close>

definition nineDays :: "(string \<times> nat \<times> AnalyzedPaper list) list" where
  "nineDays = [(''2024-01-01'', 1, []), (''2024-01-02'', 2, []), (''2024-01-03'', 3, []),
     (''2024-01-04'', 4, []), (''2024-01-05'', 5, []), (''2024-01-06'', 6, []),
     (''2024-01-07'', 7, []), (''2024-01-08'', 8, []), (''2024-01-09'', 9, [])]"

text \<open>
  A runtime in UTC that reads five dates (8 January 2024 is a Monday), and feeds: one whose
  newest record is of a Monday, one whose first request fails and whose newest record is of
  a Tuesday, one with a record without a date, one that repeats identifiers within and
  across pages. A listing page with three links, two to the same paper, and a detail
  service that answers every chunk with the same record twice.
\<close>

definition examplePaper :: "string \<Rightarrow> string \<Rightarrow> ArxivPaper" where
  "examplePaper ident date = \<lparr>paper_id = ident, title = [], summary = [], authors = [],
     published = date, link = ident, categories = [], comment = None\<rparr>"

definition utcRuntime :: runtime where
  "utcRuntime = \<lparr>dateParse = map_of
       [(''2024-01-09T00:00:00Z'', 1704758400000),
        (''2024-01-08T00:00:00Z'', 1704672000000),
        (''2024-01-05T00:00:00Z'', 1704412800000),
        (''2024-01-04T00:00:00Z'', 1704326400000),
        (''2024-01-03T00:00:00Z'', 1704240000000)],
     localTZA = (\<lambda>t. 0)\<rparr>"

definition mondayPage :: "ArxivPaper list" where
  "mondayPage = [examplePaper ''a'' ''2024-01-08T00:00:00Z'',
     examplePaper ''b'' ''2024-01-05T00:00:00Z'',
     examplePaper ''c'' ''2024-01-04T00:00:00Z'',
     examplePaper ''d'' ''2024-01-03T00:00:00Z'',
     examplePaper ''e'' ''2024-01-08T00:00:00Z'']"

definition mondayFeed :: "nat \<Rightarrow> error + ArxivPaper list" where
  "mondayFeed start = (if start = 0 then Inr mondayPage
     else Inr [examplePaper ''f'' ''2024-01-08T00:00:00Z''])"

definition tuesdayFeed :: "nat \<Rightarrow> error + ArxivPaper list" where
  "tuesdayFeed start = (if start = 0 then Inl TransportError
     else if start = 100 then Inr [examplePaper ''a'' ''2024-01-09T00:00:00Z'',
       examplePaper ''b'' ''2024-01-08T00:00:00Z'', examplePaper ''c'' ''2024-01-05T00:00:00Z'']
     else Inr [])"

definition undatedFeed :: "nat \<Rightarrow> error + ArxivPaper list" where
  "undatedFeed start = (if start = 0 then Inr [examplePaper ''a'' ''2024-01-08T00:00:00Z'',
       examplePaper ''b'' []]
     else Inr [])"

definition listingPage :: string where
  "listingPage = ''<a '' @ hrefAbs @ ''2401.00001'' @ [CHR 0x22] @ ''>x</a> <a '' @ hrefAbs
     @ ''2401.00002'' @ [CHR 0x22] @ ''>y</a> <a '' @ hrefAbs @ ''2401.00001'' @ [CHR 0x22] @ ''>''"

definition repeatingDetails :: "string list \<Rightarrow> error + ArxivPaper list" where
  "repeatingDetails chunk = Inr [examplePaper ''http://arxiv.org/abs/2401.00001v1'' [],
     examplePaper ''http://arxiv.org/abs/2401.00001v1'' []]"

definition repeatingFeed :: "nat \<Rightarrow> error + ArxivPaper list" where
  "repeatingFeed start = (if start = 0 then Inr [examplePaper ''a'' ''2024-01-09T00:00:00Z'',
       examplePaper ''b'' ''2024-01-09T00:00:00Z'', examplePaper ''a'' ''2024-01-09T00:00:00Z'']
     else if start = 100 then Inr [examplePaper ''b'' ''2024-01-09T00:00:00Z'']
     else Inr [])"

text \<open>
  Score objects as the scorer returns them, a stand-in for \<^verbatim>\<open>JSON.parse\<close> that knows three
  texts, scored papers, and answers of the analysis service of which the second is the
  text \<^verbatim>\<open>null\<close>.
\<close>

definition scoreObject :: "string \<Rightarrow> rat \<Rightarrow> json" where
  "scoreObject ident score = JObj [(''id'', JStr ident), (''relevanceScore'', JNum score),
     (''hasCode'', JBool True), (''isAccepted'', JBool False), (''reasoning'', JStr ''r'')]"

definition exampleParse :: "string \<Rightarrow> json option" where
  "exampleParse content =
     (if content = ''scores'' then
        Some (JObj [(''papers'', JArr [scoreObject ''a'' 8, scoreObject ''zz'' 9, scoreObject ''b'' 7])])
      else if content = ''analysis'' then
        Some (JObj [(''innovations'', JStr ''i''), (''methodology'', JStr ''m''), (''value'', JStr ''v'')])
      else if content = ''null'' then Some JNull
      else None)"

definition scoredPaper :: "string \<Rightarrow> rat \<Rightarrow> AnalyzedPaper" where
  "scoredPaper ident score = \<lparr>paper_id = ident, title = [], summary = [], authors = [],
     published = [], link = ident, categories = [], comment = None,
     relevanceScore = Some (JNum score), tags = JArr [], hasCode = Some (JBool True),
     isAccepted = Some (JBool False), reasoning = Some (JStr ''r''),
     innovations = None, methodology = None, paper_value = None\<rparr>"

definition threeScored :: "AnalyzedPaper list" where
  "threeScored = [scoredPaper ''a'' 8, scoredPaper ''b'' 7, scoredPaper ''c'' 9]"

definition mixedAnswers :: "nat \<Rightarrow> response" where
  "mixedAnswers i = (if i = 1 then Content ''null'' else Content ''analysis'')"

section \<open>Properties of the stage store\<close>

subsection \<open>The store and the paths\<close>

lemma getItem_setItem:
  "getItem (setItem k v s) k' = (if k' = k then Some v else getItem s k')"
  by (simp add: getItem_def setItem_def update_conv')

lemma getItem_removeItem:
  "getItem (removeItem k s) k' = (if k' = k then None else getItem s k')"
  by (simp add: getItem_def removeItem_def delete_conv')

lemma keys_setItem: "keys (setItem k v s) = insert k (keys s)"
  by (simp add: keys_def setItem_def dom_update)

lemma keys_removeItem: "keys (removeItem k s) = keys s - {k}"
proof -
  have "set (map fst (AList.delete k s)) = set (map fst s) - {k}"
    by (simp only: delete_keys set_removeAll)
  then show ?thesis
    by (simp add: keys_def removeItem_def)
qed

lemma getItem_None_iff: "getItem s k = None \<longleftrightarrow> k \<notin> keys s"
  by (simp add: getItem_def keys_def map_of_eq_None_iff)

lemma getRawPath_prefix: "startsWith (getRawPath d) PATH_RAW_DIR"
  by (simp add: startsWith_def getRawPath_def)

lemma getFilteredPath_prefix: "startsWith (getFilteredPath d) PATH_FILTERED_DIR"
  by (simp add: startsWith_def getFilteredPath_def)

lemma getReportPath_prefix: "startsWith (getReportPath d) PATH_REPORTS_DIR"
  by (simp add: startsWith_def getReportPath_def)

subsection \<open>One turn of the cleanup loop\<close>

lemma cleanupLoop_done: "\<not> i < length s \<Longrightarrow> cleanupLoop dirPrefix currentFile i s = s"
  by (subst cleanupLoop.simps) simp

lemma cleanupLoop_remove:
  "i < length s \<Longrightarrow>
   fst (s ! i) \<noteq> [] \<and> startsWith (fst (s ! i)) dirPrefix \<and> fst (s ! i) \<noteq> currentFile \<Longrightarrow>
   cleanupLoop dirPrefix currentFile i s
     = cleanupLoop dirPrefix currentFile (i + 1) (removeItem (fst (s ! i)) s)"
  by (subst cleanupLoop.simps) (simp add: key_def)

lemma cleanupLoop_keep:
  "i < length s \<Longrightarrow>
   \<not> (fst (s ! i) \<noteq> [] \<and> startsWith (fst (s ! i)) dirPrefix \<and> fst (s ! i) \<noteq> currentFile) \<Longrightarrow>
   cleanupLoop dirPrefix currentFile i s = cleanupLoop dirPrefix currentFile (i + 1) s"
  by (subst cleanupLoop.simps) (auto simp add: key_def)

lemma cleanupLoop_frame:
  "\<not> startsWith k dirPrefix \<Longrightarrow>
   getItem (cleanupLoop dirPrefix currentFile i s) k = getItem s k"
proof (induction dirPrefix currentFile i s rule: cleanupLoop.induct)
  case (1 dirPrefix currentFile i s)
  show ?case
  proof (cases "i < length s")
    case False
    then show ?thesis by (simp add: cleanupLoop_done)
  next
    case True
    let ?k = "fst (s ! i)"
    have ks: "key s i = Some ?k" using True by (simp add: key_def)
    show ?thesis
    proof (cases "?k \<noteq> [] \<and> startsWith ?k dirPrefix \<and> ?k \<noteq> currentFile")
      case rm: True
      then have ne: "k \<noteq> ?k" using "1.prems" by auto
      have "getItem (cleanupLoop dirPrefix currentFile (i + 1) (removeItem ?k s)) k
            = getItem (removeItem ?k s) k"
        using "1.IH"(2)[OF True ks rm "1.prems"] .
      also have "\<dots> = getItem s k"
        using ne by (simp add: getItem_removeItem)
      finally show ?thesis
        by (simp only: cleanupLoop_remove[OF True rm])
    next
      case keep: False
      have "getItem (cleanupLoop dirPrefix currentFile (i + 1) s) k = getItem s k"
        using "1.IH"(3)[OF True ks keep "1.prems"] .
      then show ?thesis
        by (simp only: cleanupLoop_keep[OF True keep])
    qed
  qed
qed

subsection \<open>A commit stays inside its channel\<close>

text \<open>
  Claim C10. A key that does not start with the directory prefix holds after
  \<^verbatim>\<open>cleanupDirectory\<close> what it held before (and is absent if it was absent); the same is true of
  a whole \<^verbatim>\<open>saveRawData\<close> for the keys outside \<^verbatim>\<open>data/raw/\<close> and of a whole
  \<^verbatim>\<open>saveFilteredData\<close> for the keys outside \<^verbatim>\<open>data/filtered/\<close>: report snapshots, the manifest
  and the settings keys are not touched.
\<close>

theorem channel_frame:
  "(\<not> startsWith k dirPrefix \<longrightarrow>
      getItem (cleanupDirectory dirPrefix currentFile s) k = getItem s k)
   \<and> (\<not> startsWith k PATH_RAW_DIR \<longrightarrow>
      getItem (saveRawData todayStr rawPapers s) k = getItem s k)
   \<and> (\<not> startsWith k PATH_FILTERED_DIR \<longrightarrow>
      getItem (saveFilteredData todayStr filteredPapers s) k = getItem s k)"
proof (intro conjI impI)
  assume "\<not> startsWith k dirPrefix"
  then show "getItem (cleanupDirectory dirPrefix currentFile s) k = getItem s k"
    by (simp add: cleanupDirectory_def cleanupLoop_frame)
next
  assume out: "\<not> startsWith k PATH_RAW_DIR"
  then have "k \<noteq> getRawPath todayStr"
    using getRawPath_prefix by auto
  then show "getItem (saveRawData todayStr rawPapers s) k = getItem s k"
    using out
    by (simp add: saveRawData_def Let_def cleanupDirectory_def cleanupLoop_frame getItem_setItem)
next
  assume out: "\<not> startsWith k PATH_FILTERED_DIR"
  then have "k \<noteq> getFilteredPath todayStr"
    using getFilteredPath_prefix by auto
  then show "getItem (saveFilteredData todayStr filteredPapers s) k = getItem s k"
    using out
    by (simp add: saveFilteredData_def Let_def cleanupDirectory_def cleanupLoop_frame
        getItem_setItem)
qed

theorem channel_frame_witness:
  "\<not> startsWith PATH_MANIFEST PATH_RAW_DIR
   \<and> \<not> startsWith PATH_MANIFEST PATH_FILTERED_DIR
   \<and> getItem (cleanupDirectory PATH_RAW_DIR (getRawPath ''2024-01-02'')
        [(PATH_MANIFEST, ManifestFile [''2024-01-01'']),
         (getRawPath ''2024-01-01'', RawFile ''2024-01-01'' []),
         (getRawPath ''2024-01-02'', RawFile ''2024-01-02'' [])]) PATH_MANIFEST
       = Some (ManifestFile [''2024-01-01''])
   \<and> getItem (saveRawData ''2024-01-02'' []
        [(PATH_MANIFEST, ManifestFile [''2024-01-01'']),
         (getRawPath ''2024-01-01'', RawFile ''2024-01-01'' [])]) PATH_MANIFEST
       = Some (ManifestFile [''2024-01-01''])
   \<and> getItem (saveFilteredData ''2024-01-02'' []
        [(PATH_MANIFEST, ManifestFile [''2024-01-01'']),
         (getRawPath ''2024-01-01'', RawFile ''2024-01-01'' [])]) PATH_MANIFEST
       = Some (ManifestFile [''2024-01-01''])"
proof -
  have a: "\<not> startsWith PATH_MANIFEST PATH_RAW_DIR"
    by (simp add: startsWith_def PATH_MANIFEST_def PATH_RAW_DIR_def)
  have b: "\<not> startsWith PATH_MANIFEST PATH_FILTERED_DIR"
    by (simp add: startsWith_def PATH_MANIFEST_def PATH_FILTERED_DIR_def)
  show ?thesis
    using a b
      channel_frame [of PATH_MANIFEST PATH_RAW_DIR "getRawPath ''2024-01-02''"
        "[(PATH_MANIFEST, ManifestFile [''2024-01-01'']),
          (getRawPath ''2024-01-01'', RawFile ''2024-01-01'' []),
          (getRawPath ''2024-01-02'', RawFile ''2024-01-02'' [])]" "''2024-01-02''" "[]" "[]"]
      channel_frame [of PATH_MANIFEST PATH_RAW_DIR "getRawPath ''2024-01-02''"
        "[(PATH_MANIFEST, ManifestFile [''2024-01-01'']),
          (getRawPath ''2024-01-01'', RawFile ''2024-01-01'' [])]" "''2024-01-02''" "[]" "[]"]
    by (simp add: getItem_def)
qed

subsection \<open>Retention of reports\<close>


lemma set_reportSnapshots:
  "set (reportSnapshots s) = {k \<in> keys s. startsWith k PATH_REPORTS_DIR \<and> k \<noteq> PATH_MANIFEST}"
  by (auto simp add: reportSnapshots_def namespace_def keys_def)

lemma getReportPath_inj: "getReportPath d = getReportPath d' \<longleftrightarrow> d = d'"
  by (simp add: getReportPath_def)

lemma getReportPath_manifest: "getReportPath d = PATH_MANIFEST \<longleftrightarrow> d = ''manifest''"
proof -
  have "PATH_MANIFEST = PATH_REPORTS_DIR @ ''manifest'' @ ''.json''"
    by (simp add: PATH_MANIFEST_def PATH_REPORTS_DIR_def)
  moreover have "(PATH_REPORTS_DIR @ d @ ''.json'' = PATH_REPORTS_DIR @ ''manifest'' @ ''.json'')
      = (d = ''manifest'')"
    by (simp only: same_append_eq append_same_eq)
  ultimately show ?thesis
    by (simp only: getReportPath_def)
qed


lemma removeAll_keys:
  "keys (foldl (\<lambda>st date. removeItem (getReportPath date) st) s ds) = keys s - getReportPath ` set ds"
  by (induction ds arbitrary: s) (auto simp add: keys_removeItem)

lemma removeAll_getItem:
  "getItem (foldl (\<lambda>st date. removeItem (getReportPath date) st) s ds) k
     = (if k \<in> getReportPath ` set ds then None else getItem s k)"
  by (induction ds arbitrary: s) (auto simp add: getItem_removeItem)

lemma getManifest_setItem_other:
  "k \<noteq> PATH_MANIFEST \<Longrightarrow> getManifest (setItem k v s) = getManifest s"
  by (simp add: getManifest_def getItem_setItem)

lemma getManifest_setItem_manifest:
  "getManifest (setItem PATH_MANIFEST (ManifestFile ds) s) = DateArray ds"
  by (simp add: getManifest_def getItem_setItem)

lemma reportSnapshots_setItem_manifest:
  "set (reportSnapshots (setItem PATH_MANIFEST v s)) = set (reportSnapshots s)"
  by (auto simp add: set_reportSnapshots keys_setItem)

lemma reportSnapshots_setItem_report:
  "d \<noteq> ''manifest'' \<Longrightarrow>
   set (reportSnapshots (setItem (getReportPath d) v s)) = insert (getReportPath d) (set (reportSnapshots s))"
  by (auto simp add: set_reportSnapshots keys_setItem getReportPath_prefix getReportPath_manifest)

lemma reportSnapshots_removeAll:
  "set (reportSnapshots (foldl (\<lambda>st date. removeItem (getReportPath date) st) s ds))
     = set (reportSnapshots s) - getReportPath ` set ds"
  by (auto simp add: set_reportSnapshots removeAll_keys)


lemma retained_snoc: "retained (calls @ [c]) = c # take 6 (rev calls)"
  by (simp add: retained_def take_Cons')

lemma take6_retained: "take 6 (rev calls) = take 6 (retained calls)"
  by (simp add: retained_def)

lemma saveReport_step:
  assumes inv: "reportInv calls s"
    and fresh: "d \<notin> fst ` set calls"
    and dist: "distinct (map fst calls)"
    and nm: "d \<noteq> ''manifest''" "''manifest'' \<notin> fst ` set calls"
  shows "reportInv (calls @ [(d, now, papers)]) (saveReport d now papers s)"
proof -
  let ?r = "retained calls"
  let ?m = "map fst ?r"
  let ?R = "ReportFile d now papers"
  let ?s1 = "setItem (getReportPath d) ?R s"
  let ?s2 = "setItem PATH_MANIFEST (ManifestFile (d # ?m)) ?s1"
  have pm: "getReportPath d \<noteq> PATH_MANIFEST"
    using nm(1) by (simp add: getReportPath_manifest)
  have man: "getManifest s = DateArray ?m"
    and snaps: "set (reportSnapshots s) = getReportPath ` fst ` set ?r"
    and cont: "\<And>d' n' p'. (d', n', p') \<in> set ?r \<Longrightarrow> getItem s (getReportPath d') = Some (ReportFile d' n' p')"
    using inv by (auto simp add: reportInv_def)
  have sub: "set ?r \<subseteq> set calls"
    unfolding retained_def by (metis set_rev set_take_subset)
  have dm: "d \<notin> set ?m"
    using fresh sub by auto
  have distm: "distinct ?m"
    unfolding retained_def using dist by (simp add: take_map[symmetric] rev_map[symmetric] distinct_take)
  have man1: "getManifest ?s1 = DateArray ?m"
    using pm man by (simp add: getManifest_setItem_other)
  have snaps2: "set (reportSnapshots ?s2) = insert (getReportPath d) (getReportPath ` set ?m)"
    using nm(1) snaps by (simp add: reportSnapshots_setItem_manifest reportSnapshots_setItem_report)
  have cont2: "getItem ?s2 (getReportPath d') = Some (ReportFile d' n' p')"
    if "(d', n', p') \<in> set ((d, now, papers) # ?r)" for d' n' p'
  proof (cases "(d', n', p') = (d, now, papers)")
    case True
    then show ?thesis using pm by (simp add: getItem_setItem)
  next
    case False
    then have in_r: "(d', n', p') \<in> set ?r" using that by auto
    then have "d' \<in> fst ` set calls" using sub by force
    then have "d' \<noteq> d" "d' \<noteq> ''manifest''" using fresh nm(2) by blast+
    then show ?thesis
      using cont[OF in_r] by (simp add: getItem_setItem getReportPath_manifest getReportPath_inj)
  qed
  show ?thesis
  proof (cases "length (d # ?m) > 7")
    case False
    then have short: "length (rev calls) < 7"
      by (auto simp add: retained_def)
    then have r': "retained (calls @ [(d, now, papers)]) = (d, now, papers) # ?r"
      by (simp add: retained_def)
    have res: "saveReport d now papers s = ?s2"
      using man1 dm False by (simp add: saveReport_def Let_def)
    show ?thesis
      unfolding reportInv_def res r'
      using snaps2 cont2 by (auto simp add: getManifest_setItem_manifest)
  next
    case True
    let ?rem = "drop 7 (d # ?m)"
    let ?s3 = "foldl (\<lambda>st date. removeItem (getReportPath date) st) ?s2 ?rem"
    let ?s4 = "setItem PATH_MANIFEST (ManifestFile (take 7 (d # ?m))) ?s3"
    have res: "saveReport d now papers s = ?s4"
      using man1 dm True by (simp add: saveReport_def Let_def)
    have r': "retained (calls @ [(d, now, papers)]) = (d, now, papers) # take 6 ?r"
      by (simp add: retained_snoc take6_retained)
    have tk: "take 7 (d # ?m) = d # map fst (take 6 ?r)"
      by (simp add: take_Cons' take_map)
    have rem: "?rem = drop 6 ?m"
      by (simp add: drop_Cons')
    have split: "set ?m = set (take 6 ?m) \<union> set (drop 6 ?m)" "set (take 6 ?m) \<inter> set (drop 6 ?m) = {}"
      using distm by (metis append_take_drop_id set_append, metis append_take_drop_id distinct_append)
    have drem: "d \<notin> set (drop 6 ?m)"
      using dm by (meson in_set_dropD)
    have A: "getManifest ?s4 = DateArray (map fst (retained (calls @ [(d, now, papers)])))"
      by (simp only: getManifest_setItem_manifest tk r' list.map fst_conv)
    have "set (reportSnapshots ?s4) = set (reportSnapshots ?s2) - getReportPath ` set (drop 6 ?m)"
      by (simp only: reportSnapshots_setItem_manifest reportSnapshots_removeAll rem)
    also have "\<dots> = insert (getReportPath d) (getReportPath ` set ?m) - getReportPath ` set (drop 6 ?m)"
      by (simp only: snaps2)
    also have "\<dots> = getReportPath ` insert d (set (take 6 ?m))"
      using split drem by (auto simp add: getReportPath_inj)
    finally have B: "set (reportSnapshots ?s4) = getReportPath ` fst ` set (retained (calls @ [(d, now, papers)]))"
      by (simp add: r' take_map)
    have C: "getItem ?s4 (getReportPath d') = Some (ReportFile d' n' p')"
      if "(d', n', p') \<in> set (retained (calls @ [(d, now, papers)]))" for d' n' p'
    proof -
      have mem: "(d', n', p') \<in> set ((d, now, papers) # ?r)"
        using that r' by (auto dest: in_set_takeD)
      have "d' = d \<or> d' \<in> set (take 6 ?m)"
        using that r' by (force simp add: take_map)
      then have nr: "d' \<notin> set (drop 6 ?m)"
        using drem split by auto
      have "d' = d \<or> d' \<in> fst ` set calls"
        using mem sub by force
      then have "getReportPath d' \<noteq> PATH_MANIFEST"
        using nm by (auto simp add: getReportPath_manifest)
      then show ?thesis
        using cont2[OF mem] nr
        by (simp add: getItem_setItem removeAll_getItem rem getReportPath_inj image_iff)
    qed
    show ?thesis
      unfolding reportInv_def res using A B C by auto
  qed
qed


lemma reportInv_initial:
  assumes "\<forall>k \<in> keys s. \<not> startsWith k PATH_REPORTS_DIR"
  shows "reportInv [] s"
proof -
  have "startsWith PATH_MANIFEST PATH_REPORTS_DIR"
    by (simp add: startsWith_def PATH_MANIFEST_def PATH_REPORTS_DIR_def)
  then have "PATH_MANIFEST \<notin> keys s"
    using assms by auto
  then have "getItem s PATH_MANIFEST = None"
    by (simp add: getItem_None_iff)
  then have "getManifest s = DateArray []"
    by (simp add: getManifest_def)
  moreover have "set (reportSnapshots s) = {}"
    using assms by (auto simp add: set_reportSnapshots)
  ultimately show ?thesis
    by (simp add: reportInv_def retained_def)
qed

lemma saveReports_inv:
  "reportInv h s \<Longrightarrow> distinct (map fst (h @ calls)) \<Longrightarrow> ''manifest'' \<notin> fst ` set (h @ calls) \<Longrightarrow>
   reportInv (h @ calls) (saveReports calls s)"
proof (induction calls arbitrary: h s)
  case Nil
  then show ?case by simp
next
  case (Cons c calls)
  obtain d now papers where c: "c = (d, now, papers)"
    by (cases c) auto
  have step: "reportInv (h @ [(d, now, papers)]) (saveReport d now papers s)"
  proof (rule saveReport_step)
    show "reportInv h s" by (rule Cons.prems(1))
    show "d \<notin> fst ` set h" using Cons.prems(2) c by auto
    show "distinct (map fst h)" using Cons.prems(2) by simp
    show "d \<noteq> ''manifest''" using Cons.prems(3) c by auto
    show "''manifest'' \<notin> fst ` set h" using Cons.prems(3) by auto
  qed
  have "reportInv ((h @ [(d, now, papers)]) @ calls) (saveReports calls (saveReport d now papers s))"
  proof (rule Cons.IH [OF step])
    show "distinct (map fst ((h @ [(d, now, papers)]) @ calls))"
      using Cons.prems(2) c by simp
    show "''manifest'' \<notin> fst ` set ((h @ [(d, now, papers)]) @ calls)"
      using Cons.prems(3) c by simp
  qed
  then show ?case
    using c by simp
qed

text \<open>
  Claim C1. Start from a store with no key under \<^verbatim>\<open>data/reports/\<close> and commit \<open>N\<close> reports
  with \<open>N\<close> distinct date keys (an ISO date is never the word \<^verbatim>\<open>manifest\<close>). After the last
  commit the manifest has \<open>min N 7\<close> entries, the dates of the last commits with the newest
  first, and the report snapshots of the store are exactly the files of the dates in the
  manifest, each holding what its commit wrote: the files of older dates are gone.
\<close>

theorem report_retention:
  assumes "distinct (map fst calls)"
    and "''manifest'' \<notin> fst ` set calls"
    and "\<forall>k \<in> keys s. \<not> startsWith k PATH_REPORTS_DIR"
  shows "(\<exists>m. getManifest (saveReports calls s) = DateArray m
            \<and> length m = min (length calls) 7
            \<and> m = take 7 (rev (map fst calls)))
         \<and> set (reportSnapshots (saveReports calls s))
             = getReportPath ` set (take 7 (rev (map fst calls)))
         \<and> (\<forall>(d, now, papers) \<in> set (take 7 (rev calls)).
               getItem (saveReports calls s) (getReportPath d) = Some (ReportFile d now papers))"
proof -
  have "reportInv ([] @ calls) (saveReports calls s)"
    using assms by (intro saveReports_inv reportInv_initial) simp_all
  then have inv: "reportInv calls (saveReports calls s)"
    by simp
  have m: "map fst (retained calls) = take 7 (rev (map fst calls))"
    by (simp add: retained_def take_map rev_map)
  have "length (take 7 (rev (map fst calls))) = min (length calls) 7"
    by simp
  moreover have "fst ` set (retained calls) = set (take 7 (rev (map fst calls)))"
    using m by (metis set_map)
  ultimately show ?thesis
    using inv m unfolding reportInv_def retained_def by auto
qed

theorem report_retention_witness:
  "distinct (map fst nineDays) \<and> ''manifest'' \<notin> fst ` set nineDays
   \<and> keys ([] :: store) = {}
   \<and> getManifest (saveReports nineDays []) = DateArray [''2024-01-09'', ''2024-01-08'',
        ''2024-01-07'', ''2024-01-06'', ''2024-01-05'', ''2024-01-04'', ''2024-01-03'']
   \<and> set (reportSnapshots (saveReports nineDays []))
        = getReportPath ` {''2024-01-09'', ''2024-01-08'', ''2024-01-07'', ''2024-01-06'',
            ''2024-01-05'', ''2024-01-04'', ''2024-01-03''}
   \<and> getItem (saveReports nineDays []) (getReportPath ''2024-01-02'') = None"
proof -
  have a: "distinct (map fst nineDays)" by (simp add: nineDays_def)
  have b: "''manifest'' \<notin> fst ` set nineDays" by (simp add: nineDays_def)
  have c: "\<forall>k \<in> keys []. \<not> startsWith k PATH_REPORTS_DIR" by (simp add: keys_def)
  have t: "take 7 (rev (map fst nineDays)) = [''2024-01-09'', ''2024-01-08'',
        ''2024-01-07'', ''2024-01-06'', ''2024-01-05'', ''2024-01-04'', ''2024-01-03'']"
    by (simp add: nineDays_def)
  note r = report_retention [OF a b c]
  have snaps: "set (reportSnapshots (saveReports nineDays []))
        = getReportPath ` {''2024-01-09'', ''2024-01-08'', ''2024-01-07'', ''2024-01-06'',
            ''2024-01-05'', ''2024-01-04'', ''2024-01-03''}"
    using r unfolding t by simp
  have "getReportPath ''2024-01-02'' \<notin> set (reportSnapshots (saveReports nineDays []))"
    unfolding snaps by (simp add: getReportPath_inj)
  then have "getReportPath ''2024-01-02'' \<notin> keys (saveReports nineDays [])"
    by (simp add: set_reportSnapshots getReportPath_prefix getReportPath_manifest)
  then have "getItem (saveReports nineDays []) (getReportPath ''2024-01-02'') = None"
    by (simp add: getItem_None_iff)
  then show ?thesis
    using a b r snaps unfolding t by (simp add: keys_def)
qed

subsection \<open>The sweep of a channel with at most one other entry\<close>

text \<open>
  When all keys to delete are one and the same key, the loop deletes it: after the commit
  the raw channel holds the new snapshot and nothing else. This is the case in every store
  the commits themselves produce from an empty channel.
\<close>

lemma nth_key: "i < length s \<Longrightarrow> fst (s ! i) \<in> keys s"
  by (auto simp add: keys_def)

lemma key_at_index: "(\<exists>j. 0 \<le> j \<and> j < length s \<and> fst (s ! j) = k) \<longleftrightarrow> k \<in> keys s"
proof
  assume "\<exists>j. 0 \<le> j \<and> j < length s \<and> fst (s ! j) = k"
  then show "k \<in> keys s" using nth_key by blast
next
  assume "k \<in> keys s"
  then obtain p where "p \<in> set s" "fst p = k"
    by (auto simp add: keys_def)
  then obtain j where "j < length s" "s ! j = p"
    by (auto simp add: in_set_conv_nth)
  then show "\<exists>j. 0 \<le> j \<and> j < length s \<and> fst (s ! j) = k"
    using \<open>fst p = k\<close> by auto
qed

lemma cleanupLoop_nothing_stale:
  "\<forall>x \<in> keys s. \<not> stale dirPrefix currentFile x \<Longrightarrow> cleanupLoop dirPrefix currentFile i s = s"
proof (induction "length s - i" arbitrary: i rule: less_induct)
  case less
  show ?case
  proof (cases "i < length s")
    case False
    then show ?thesis by (simp add: cleanupLoop_done)
  next
    case True
    then have "\<not> stale dirPrefix currentFile (fst (s ! i))"
      using less.prems nth_key by blast
    then have keep: "\<not> (fst (s ! i) \<noteq> [] \<and> startsWith (fst (s ! i)) dirPrefix \<and> fst (s ! i) \<noteq> currentFile)"
      by (simp add: stale_def)
    have "length s - (i + 1) < length s - i"
      using True by simp
    then have "cleanupLoop dirPrefix currentFile (i + 1) s = s"
      using less.hyps less.prems by blast
    then show ?thesis
      by (simp only: cleanupLoop_keep [OF True keep])
  qed
qed

lemma cleanupLoop_one_stale:
  assumes "\<forall>x \<in> keys s. stale dirPrefix currentFile x \<longrightarrow> x = k"
  shows "cleanupLoop dirPrefix currentFile i s
     = (if stale dirPrefix currentFile k \<and> (\<exists>j. i \<le> j \<and> j < length s \<and> fst (s ! j) = k)
        then removeItem k s else s)"
  using assms
proof (induction "length s - i" arbitrary: i rule: less_induct)
  case less
  show ?case
  proof (cases "i < length s")
    case False
    then show ?thesis by (auto simp add: cleanupLoop_done)
  next
    case True
    have smaller: "length s - (i + 1) < length s - i"
      using True by simp
    show ?thesis
    proof (cases "stale dirPrefix currentFile (fst (s ! i))")
      case st: True
      then have k: "fst (s ! i) = k"
        using less.prems True nth_key by blast
      have rm: "fst (s ! i) \<noteq> [] \<and> startsWith (fst (s ! i)) dirPrefix \<and> fst (s ! i) \<noteq> currentFile"
        using st by (simp add: stale_def)
      have "\<forall>x \<in> keys (removeItem k s). \<not> stale dirPrefix currentFile x"
        using less.prems by (auto simp add: keys_removeItem)
      then have "cleanupLoop dirPrefix currentFile (i + 1) (removeItem k s) = removeItem k s"
        by (rule cleanupLoop_nothing_stale)
      then have "cleanupLoop dirPrefix currentFile i s = removeItem k s"
        using cleanupLoop_remove [OF True rm] k by simp
      moreover have "stale dirPrefix currentFile k \<and> (\<exists>j. i \<le> j \<and> j < length s \<and> fst (s ! j) = k)"
        using st k True by auto
      ultimately show ?thesis by simp
    next
      case nst: False
      then have keep: "\<not> (fst (s ! i) \<noteq> [] \<and> startsWith (fst (s ! i)) dirPrefix \<and> fst (s ! i) \<noteq> currentFile)"
        by (simp add: stale_def)
      have ih: "cleanupLoop dirPrefix currentFile (i + 1) s
         = (if stale dirPrefix currentFile k \<and> (\<exists>j. i + 1 \<le> j \<and> j < length s \<and> fst (s ! j) = k)
            then removeItem k s else s)"
        using less.hyps [OF smaller less.prems] .
      have later: "i + 1 \<le> j" if "i \<le> j" "fst (s ! j) = k" "stale dirPrefix currentFile k" for j
        using that nst by (cases "j = i") auto
      have cond: "(stale dirPrefix currentFile k \<and> (\<exists>j. i + 1 \<le> j \<and> j < length s \<and> fst (s ! j) = k))
          = (stale dirPrefix currentFile k \<and> (\<exists>j. i \<le> j \<and> j < length s \<and> fst (s ! j) = k))"
      proof (cases "stale dirPrefix currentFile k")
        case True
        have "(\<exists>j. i + 1 \<le> j \<and> j < length s \<and> fst (s ! j) = k) = (\<exists>j. i \<le> j \<and> j < length s \<and> fst (s ! j) = k)"
        proof
          assume "\<exists>j. i + 1 \<le> j \<and> j < length s \<and> fst (s ! j) = k"
          then obtain j where "i + 1 \<le> j" "j < length s" "fst (s ! j) = k" by blast
          then have "i \<le> j \<and> j < length s \<and> fst (s ! j) = k" by simp
          then show "\<exists>j. i \<le> j \<and> j < length s \<and> fst (s ! j) = k" ..
        next
          assume "\<exists>j. i \<le> j \<and> j < length s \<and> fst (s ! j) = k"
          then obtain j where j: "i \<le> j" "j < length s" "fst (s ! j) = k" by blast
          then have "i + 1 \<le> j \<and> j < length s \<and> fst (s ! j) = k"
            using later [OF j(1) j(3) True] by simp
          then show "\<exists>j. i + 1 \<le> j \<and> j < length s \<and> fst (s ! j) = k" ..
        qed
        then show ?thesis by simp
      next
        case False
        then show ?thesis by simp
      qed
      show ?thesis
        by (simp only: cleanupLoop_keep [OF True keep] ih cond)
    qed
  qed
qed

lemma sweep_single_stale:
  assumes "\<forall>x \<in> keys s. startsWith x PATH_RAW_DIR \<longrightarrow> x = k"
  shows "set (namespace PATH_RAW_DIR (saveRawData todayStr papers s)) = {getRawPath todayStr}"
    and "getItem (saveRawData todayStr papers s) (getRawPath todayStr) = Some (RawFile todayStr papers)"
proof -
  let ?file = "getRawPath todayStr"
  let ?s1 = "setItem ?file (RawFile todayStr papers) s"
  have one: "\<forall>x \<in> keys ?s1. stale PATH_RAW_DIR ?file x \<longrightarrow> x = k"
    using assms by (auto simp add: keys_setItem stale_def)
  have run: "saveRawData todayStr papers s
      = (if stale PATH_RAW_DIR ?file k \<and> (\<exists>j. 0 \<le> j \<and> j < length ?s1 \<and> fst (?s1 ! j) = k)
         then removeItem k ?s1 else ?s1)"
    using cleanupLoop_one_stale [OF one, of 0]
    by (simp add: saveRawData_def cleanupDirectory_def Let_def)
  have inkeys: "(\<exists>j. 0 \<le> j \<and> j < length ?s1 \<and> fst (?s1 ! j) = k) \<longleftrightarrow> k \<in> keys ?s1"
    by (rule key_at_index)
  have ns: "set (namespace PATH_RAW_DIR t) = {x \<in> keys t. startsWith x PATH_RAW_DIR}" for t
    by (auto simp add: namespace_def keys_def)
  have nonempty: "startsWith x PATH_RAW_DIR \<Longrightarrow> x \<noteq> []" for x
    by (auto simp add: startsWith_def PATH_RAW_DIR_def)
  show "set (namespace PATH_RAW_DIR (saveRawData todayStr papers s)) = {?file}"
    unfolding run inkeys ns using assms getRawPath_prefix [of todayStr] nonempty
    by (auto simp add: keys_setItem keys_removeItem stale_def)
  show "getItem (saveRawData todayStr papers s) ?file = Some (RawFile todayStr papers)"
    unfolding run by (auto simp add: getItem_setItem getItem_removeItem stale_def)
qed

subsection \<open>The sweep of a channel misses entries\<close>

text \<open>
  Claim C2, at a store that holds three older raw snapshots: the commit of a fourth date
  leaves two keys in \<^verbatim>\<open>data/raw/\<close>, the new snapshot and the one of 2024-01-02. The loop
  of \<^verbatim>\<open>cleanupDirectory\<close> moves to the next index after a removal, while the entries after the
  removed one have moved up by one, so the entry that follows a removed entry is never
  looked at. \<^verbatim>\<open>saveFilteredData\<close> does the same in \<^verbatim>\<open>data/filtered/\<close>.
\<close>

theorem stale_snapshot_survives:
  "namespace PATH_RAW_DIR (saveRawData ''2024-01-04'' []
     [(getRawPath ''2024-01-01'', RawFile ''2024-01-01'' []),
      (getRawPath ''2024-01-02'', RawFile ''2024-01-02'' []),
      (getRawPath ''2024-01-03'', RawFile ''2024-01-03'' [])])
   = [getRawPath ''2024-01-02'', getRawPath ''2024-01-04'']
   \<and> namespace PATH_FILTERED_DIR (saveFilteredData ''2024-01-04'' []
     [(getFilteredPath ''2024-01-01'', FilteredFile ''2024-01-01'' []),
      (getFilteredPath ''2024-01-02'', FilteredFile ''2024-01-02'' []),
      (getFilteredPath ''2024-01-03'', FilteredFile ''2024-01-03'' [])])
   = [getFilteredPath ''2024-01-02'', getFilteredPath ''2024-01-04'']"
proof -
  have raw: "saveRawData ''2024-01-04'' []
     [(getRawPath ''2024-01-01'', RawFile ''2024-01-01'' []),
      (getRawPath ''2024-01-02'', RawFile ''2024-01-02'' []),
      (getRawPath ''2024-01-03'', RawFile ''2024-01-03'' [])]
   = [(getRawPath ''2024-01-02'', RawFile ''2024-01-02'' []),
      (getRawPath ''2024-01-04'', RawFile ''2024-01-04'' [])]"
    by (simp add: saveRawData_def cleanupDirectory_def cleanupLoop.simps key_def setItem_def
        removeItem_def getRawPath_def PATH_RAW_DIR_def startsWith_def Let_def)
  have filtered: "saveFilteredData ''2024-01-04'' []
     [(getFilteredPath ''2024-01-01'', FilteredFile ''2024-01-01'' []),
      (getFilteredPath ''2024-01-02'', FilteredFile ''2024-01-02'' []),
      (getFilteredPath ''2024-01-03'', FilteredFile ''2024-01-03'' [])]
   = [(getFilteredPath ''2024-01-02'', FilteredFile ''2024-01-02'' []),
      (getFilteredPath ''2024-01-04'', FilteredFile ''2024-01-04'' [])]"
    by (simp add: saveFilteredData_def cleanupDirectory_def cleanupLoop.simps key_def
        setItem_def removeItem_def getFilteredPath_def PATH_FILTERED_DIR_def startsWith_def
        Let_def)
  show ?thesis
    unfolding raw filtered
    by (simp add: namespace_def getRawPath_prefix getFilteredPath_prefix)
qed

section \<open>Properties of the source fetcher\<close>

subsection \<open>One page of the fallback feed\<close>

lemma walk_anchored:
  "walk rt w papers (Some a) acc
     = (Some a, acc @ takeWhile (\<lambda>p. \<not> tooOld rt a w p) papers, \<exists>p \<in> set papers. tooOld rt a w p)"
  by (induction papers arbitrary: acc) (auto simp add: tooOld_def Let_def)

lemma anchor_unset:
  "newestPaperDate st = None \<Longrightarrow>
   anchor rt (first # rest) st
     = st\<lparr>newestPaperDate := Some (dateParse rt (published first)),
          timeWindowDays := windowOf rt (dateParse rt (published first))\<rparr>"
  by (simp add: anchor_def windowOf_def Let_def)

lemma anchor_set: "newestPaperDate st = Some a \<Longrightarrow> anchor rt papers st = st"
  by (simp add: anchor_def)

lemma fallbackLoop_end: "\<not> start < totalToFetch \<Longrightarrow> fallbackLoop rt feed start st = st"
  by (subst fallbackLoop.simps) simp

lemma fallbackLoop_error:
  "start < totalToFetch \<Longrightarrow> feed start = Inl e \<Longrightarrow>
   fallbackLoop rt feed start st
     = fallbackLoop rt feed (start + batchSize) (st\<lparr>requested := requested st @ [start]\<rparr>)"
  by (subst fallbackLoop.simps) simp

lemma fallbackLoop_empty:
  "start < totalToFetch \<Longrightarrow> feed start = Inr [] \<Longrightarrow>
   fallbackLoop rt feed start st = st\<lparr>requested := requested st @ [start]\<rparr>"
  by (subst fallbackLoop.simps) simp

lemma fallbackLoop_page:
  assumes "start < totalToFetch" "feed start = Inr page" "page \<noteq> []"
    and "st1 = anchor rt page (st\<lparr>requested := requested st @ [start]\<rparr>)"
    and "newestPaperDate st1 = Some a"
  shows "fallbackLoop rt feed start st
     = (if \<exists>p \<in> set page. tooOld rt a (timeWindowDays st1) p
        then st1\<lparr>allPapers := allPapers st1 @ takeWhile (\<lambda>p. \<not> tooOld rt a (timeWindowDays st1) p) page\<rparr>
        else fallbackLoop rt feed (start + batchSize) (st1\<lparr>allPapers := allPapers st1 @ page\<rparr>))"
proof -
  have same: "st1\<lparr>allPapers := xs, newestPaperDate := Some a\<rparr> = st1\<lparr>allPapers := xs\<rparr>" for xs
    using assms(5) by simp
  let ?old = "\<exists>p \<in> set page. tooOld rt a (timeWindowDays st1) p"
  have unfold: "fallbackLoop rt feed start st
     = (if ?old
        then st1\<lparr>allPapers := allPapers st1 @ takeWhile (\<lambda>p. \<not> tooOld rt a (timeWindowDays st1) p) page\<rparr>
        else fallbackLoop rt feed (start + batchSize)
          (st1\<lparr>allPapers := allPapers st1 @ takeWhile (\<lambda>p. \<not> tooOld rt a (timeWindowDays st1) p) page\<rparr>))"
    using assms(1,2,3)
    by (subst fallbackLoop.simps)
      (simp add: assms(4)[symmetric] assms(5) walk_anchored same Let_def del: ex_simps bex_simps)
  show ?thesis
  proof (cases ?old)
    case True
    then show ?thesis using unfold by simp
  next
    case False
    then have tw: "takeWhile (\<lambda>p. \<not> tooOld rt a (timeWindowDays st1) p) page = page"
      by (simp add: takeWhile_eq_all_conv)
    show ?thesis using False by (simp only: unfold tw if_False)
  qed
qed

subsection \<open>The anchor and the window of a run\<close>

lemma firstAnswer_end: "\<not> start < totalToFetch \<Longrightarrow> firstAnswer feed start = None"
  by (subst firstAnswer.simps) simp

lemma firstAnswer_error:
  "start < totalToFetch \<Longrightarrow> feed start = Inl e \<Longrightarrow>
   firstAnswer feed start = firstAnswer feed (start + batchSize)"
  by (subst firstAnswer.simps) simp

lemma firstAnswer_page:
  "start < totalToFetch \<Longrightarrow> feed start = Inr page \<Longrightarrow> firstAnswer feed start = Some page"
  by (subst firstAnswer.simps) simp

lemma anchor_requested: "requested (anchor rt page st) = requested st"
  by (cases "newestPaperDate st"; cases page) (simp_all add: anchor_def Let_def)

lemma anchored_stays:
  "newestPaperDate st = Some a \<Longrightarrow>
   newestPaperDate (fallbackLoop rt feed start st) = Some a
   \<and> timeWindowDays (fallbackLoop rt feed start st) = timeWindowDays st"
proof (induction "totalToFetch - start" arbitrary: start st rule: less_induct)
  case less
  show ?case
  proof (cases "start < totalToFetch")
    case False
    then show ?thesis using less.prems by (simp add: fallbackLoop_end)
  next
    case True
    have smaller: "totalToFetch - (start + batchSize) < totalToFetch - start"
      using True by (simp add: batchSize_def)
    show ?thesis
    proof (cases "feed start")
      case (Inl e)
      show ?thesis
        using less.hyps[OF smaller, of "st\<lparr>requested := requested st @ [start]\<rparr>"] less.prems
        by (simp add: fallbackLoop_error[where feed=feed, OF True Inl])
    next
      case (Inr page)
      show ?thesis
      proof (cases "page = []")
        case True
        then show ?thesis
          using less.prems \<open>start < totalToFetch\<close> Inr by (simp add: fallbackLoop_empty)
      next
        case False
        let ?st1 = "st\<lparr>requested := requested st @ [start]\<rparr>"
        have a1: "anchor rt page ?st1 = ?st1"
          using less.prems by (simp add: anchor_set)
        have n1: "newestPaperDate ?st1 = Some a"
          using less.prems by simp
        note eq = fallbackLoop_page[where feed=feed, OF True Inr False a1[symmetric] n1]
        show ?thesis
        proof (cases "\<exists>p \<in> set page. tooOld rt a (timeWindowDays ?st1) p")
          case True
          then show ?thesis
            using less.prems by (simp only: eq if_True) simp
        next
          case False
          have "newestPaperDate (?st1\<lparr>allPapers := allPapers ?st1 @ page\<rparr>) = Some a"
            using less.prems by simp
          from less.hyps[OF smaller this] show ?thesis
            using False by (simp only: eq if_False) simp
        qed
      qed
    qed
  qed
qed

lemma unanchored_run:
  "newestPaperDate st = None \<Longrightarrow>
   newestPaperDate (fallbackLoop rt feed start st)
     = (case firstAnswer feed start of
          Some (first # rest) \<Rightarrow> Some (dateParse rt (published first))
        | _ \<Rightarrow> None)
   \<and> timeWindowDays (fallbackLoop rt feed start st)
     = (case firstAnswer feed start of
          Some (first # rest) \<Rightarrow> windowOf rt (dateParse rt (published first))
        | _ \<Rightarrow> timeWindowDays st)"
proof (induction "totalToFetch - start" arbitrary: start st rule: less_induct)
  case less
  show ?case
  proof (cases "start < totalToFetch")
    case False
    then show ?thesis using less.prems by (simp add: fallbackLoop_end firstAnswer_end)
  next
    case True
    have smaller: "totalToFetch - (start + batchSize) < totalToFetch - start"
      using True by (simp add: batchSize_def)
    show ?thesis
    proof (cases "feed start")
      case (Inl e)
      show ?thesis
        using less.hyps[OF smaller, of "st\<lparr>requested := requested st @ [start]\<rparr>"] less.prems
        by (simp add: fallbackLoop_error[where feed=feed, OF True Inl]
            firstAnswer_error[where feed=feed, OF True Inl] cong: option.case_cong list.case_cong)
    next
      case (Inr page)
      show ?thesis
      proof (cases page)
        case Nil
        then show ?thesis
          using less.prems True Inr by (simp add: fallbackLoop_empty firstAnswer_page)
      next
        case (Cons first rest)
        let ?a = "dateParse rt (published first)"
        let ?st0 = "st\<lparr>requested := requested st @ [start]\<rparr>"
        let ?st1 = "?st0\<lparr>newestPaperDate := Some ?a, timeWindowDays := windowOf rt ?a\<rparr>"
        have a1: "?st1 = anchor rt page ?st0"
          using less.prems Cons by (simp add: anchor_unset)
        have n1: "newestPaperDate ?st1 = Some ?a"
          by simp
        have ne: "page \<noteq> []" using Cons by simp
        note eq = fallbackLoop_page[where feed=feed, OF True Inr ne a1 n1]
        have fa: "firstAnswer feed start = Some (first # rest)"
          using True Inr Cons by (simp add: firstAnswer_page)
        show ?thesis
        proof (cases "\<exists>p \<in> set page. tooOld rt ?a (timeWindowDays ?st1) p")
          case True
          then show ?thesis
            by (simp only: eq if_True fa) simp
        next
          case False
          have "newestPaperDate (?st1\<lparr>allPapers := allPapers ?st1 @ page\<rparr>) = Some ?a"
            by simp
          from anchored_stays[OF this, of rt feed "start + batchSize"] show ?thesis
            using False by (simp only: eq if_False fa) simp
        qed
      qed
    qed
  qed
qed

text \<open>
  Claim C3. When no anchor is set, a page with a first record sets the anchor to that
  record's date and the window to 4 days if the anchor's \<^verbatim>\<open>getDay()\<close> is 1 (Monday, the
  second day of the week that starts on Sunday) and to 1.2 days (6/5) for every other day
  and for a date that does not parse. Over a whole run the anchor is the date of the first
  record of the first page the feed delivers, and the window at the end, which every walk
  of the run has used since the anchor was set, is the one of that anchor; a run without an
  anchor keeps the initial 1.2 days.
\<close>

theorem acceptance_window:
  "(newestPaperDate st = None \<longrightarrow>
      anchor rt (first # rest) st
        = st\<lparr>newestPaperDate := Some (dateParse rt (published first)),
             timeWindowDays :=
               (if getDay rt (dateParse rt (published first)) = Some 1 then 4 else 6 / 5)\<rparr>)
   \<and> newestPaperDate (fallbackRun rt feed) = anchorOf rt feed
   \<and> timeWindowDays (fallbackRun rt feed)
       = (case anchorOf rt feed of
            None \<Rightarrow> 6 / 5
          | Some a \<Rightarrow> if getDay rt a = Some 1 then 4 else 6 / 5)"
proof -
  have init: "newestPaperDate initialState = None" "timeWindowDays initialState = 6 / 5"
    by (simp_all add: initialState_def)
  note run = unanchored_run[OF init(1), of rt feed 0]
  have "newestPaperDate (fallbackRun rt feed) = anchorOf rt feed"
    using run by (simp add: fallbackRun_def anchorOf_def)
  moreover have "timeWindowDays (fallbackRun rt feed)
       = (case anchorOf rt feed of
            None \<Rightarrow> 6 / 5
          | Some a \<Rightarrow> if getDay rt a = Some 1 then 4 else 6 / 5)"
    using run init(2)
    by (simp add: fallbackRun_def anchorOf_def windowOf_def split: option.splits list.splits)
  ultimately show ?thesis
    by (simp add: anchor_unset windowOf_def)
qed

subsection \<open>The example feeds, evaluated\<close>

lemmas eval_defs = fallbackRun_def initialState_def fallbackLoop.simps anchor_def getDay_def
  msPerDay_def diffDays_def exceeds_def totalToFetch_def batchSize_def utcRuntime_def
  examplePaper_def Let_def

lemma monday_run: "fallbackRun utcRuntime mondayFeed
  = \<lparr>allPapers = [examplePaper ''a'' ''2024-01-08T00:00:00Z'',
       examplePaper ''b'' ''2024-01-05T00:00:00Z'', examplePaper ''c'' ''2024-01-04T00:00:00Z''],
     newestPaperDate = Some (Some 1704672000000), timeWindowDays = 4, requested = [0]\<rparr>"
  by (simp add: eval_defs mondayFeed_def mondayPage_def)

lemma tuesday_run: "fallbackRun utcRuntime tuesdayFeed
  = \<lparr>allPapers = [examplePaper ''a'' ''2024-01-09T00:00:00Z'',
       examplePaper ''b'' ''2024-01-08T00:00:00Z''],
     newestPaperDate = Some (Some 1704758400000), timeWindowDays = 6 / 5, requested = [0, 100]\<rparr>"
  by (simp add: eval_defs tuesdayFeed_def)

lemma undated_run: "fallbackRun utcRuntime undatedFeed
  = \<lparr>allPapers = [examplePaper ''a'' ''2024-01-08T00:00:00Z'', examplePaper ''b'' []],
     newestPaperDate = Some (Some 1704672000000), timeWindowDays = 4, requested = [0, 100]\<rparr>"
  by (simp add: eval_defs undatedFeed_def)

theorem acceptance_window_witness:
  "newestPaperDate initialState = None
   \<and> timeWindowDays (anchor utcRuntime [examplePaper ''a'' ''2024-01-08T00:00:00Z''] initialState) = 4
   \<and> timeWindowDays (anchor utcRuntime [examplePaper ''a'' ''2024-01-09T00:00:00Z''] initialState) = 6 / 5
   \<and> timeWindowDays (fallbackRun utcRuntime mondayFeed) = 4
   \<and> timeWindowDays (fallbackRun utcRuntime tuesdayFeed) = 6 / 5"
proof -
  have init: "newestPaperDate initialState = None"
    by (simp add: initialState_def)
  have mon: "anchorOf utcRuntime mondayFeed = Some (Some 1704672000000)"
    by (simp add: anchorOf_def firstAnswer.simps mondayFeed_def mondayPage_def totalToFetch_def
        utcRuntime_def examplePaper_def)
  have tue: "anchorOf utcRuntime tuesdayFeed = Some (Some 1704758400000)"
    by (simp add: anchorOf_def firstAnswer.simps tuesdayFeed_def totalToFetch_def batchSize_def
        utcRuntime_def examplePaper_def)
  have days: "getDay utcRuntime (Some 1704672000000) = Some 1"
    "getDay utcRuntime (Some 1704758400000) = Some 2"
    by (simp_all add: getDay_def msPerDay_def utcRuntime_def)
  have parse: "dateParse utcRuntime (published (examplePaper ''a'' ''2024-01-08T00:00:00Z'')) = Some 1704672000000"
    "dateParse utcRuntime (published (examplePaper ''a'' ''2024-01-09T00:00:00Z'')) = Some 1704758400000"
    by (simp_all add: utcRuntime_def examplePaper_def)
  show ?thesis
    using init
      acceptance_window [of initialState utcRuntime "examplePaper ''a'' ''2024-01-08T00:00:00Z''" "[]" mondayFeed]
      acceptance_window [of initialState utcRuntime "examplePaper ''a'' ''2024-01-09T00:00:00Z''" "[]" tuesdayFeed]
    by (simp add: mon tue days parse)
qed

subsection \<open>The walk over a page\<close>

lemma tooOld_dated:
  "dateParse rt (published p) = Some b \<Longrightarrow>
   (\<not> tooOld rt (Some a) w p) = (of_int (a - b) / of_int msPerDay \<le> w)"
  by (auto simp add: tooOld_def diffDays_def exceeds_def)

lemma tooOld_undated: "dateParse rt (published p) = None \<Longrightarrow> \<not> tooOld rt (Some a) w p"
  by (simp add: tooOld_def diffDays_def exceeds_def)

text \<open>
  Claim C8, as amended. A page with records is walked under an anchor whose date parsed.
  The accepted records are the longest prefix of the page without a record older than the
  window; if the page has a record older than the window, the loop ends there and the page's
  offset is the last one requested; otherwise all records are accepted and the loop goes on
  with the next offset. A record whose date parses is older than the window exactly when
  its elapsed days are not at most the window; a record whose date does not parse is never
  older than the window.
\<close>

theorem window_walk:
  assumes "start < totalToFetch" and "feed start = Inr page" and "page \<noteq> []"
    and "anchor rt page (st\<lparr>requested := requested st @ [start]\<rparr>) = st1"
    and "newestPaperDate st1 = Some (Some a)"
  shows "fallbackLoop rt feed start st
           = (if \<exists>p \<in> set page. tooOld rt (Some a) (timeWindowDays st1) p
              then st1\<lparr>allPapers := allPapers st1
                     @ takeWhile (\<lambda>p. \<not> tooOld rt (Some a) (timeWindowDays st1) p) page\<rparr>
              else fallbackLoop rt feed (start + batchSize)
                     (st1\<lparr>allPapers := allPapers st1 @ page\<rparr>))
         \<and> ((\<exists>p \<in> set page. tooOld rt (Some a) (timeWindowDays st1) p) \<longrightarrow>
              requested (fallbackLoop rt feed start st) = requested st @ [start])
         \<and> (\<forall>p b. dateParse rt (published p) = Some b \<longrightarrow>
              (\<not> tooOld rt (Some a) (timeWindowDays st1) p)
                = (of_int (a - b) / of_int msPerDay \<le> timeWindowDays st1))
         \<and> (\<forall>p. dateParse rt (published p) = None \<longrightarrow>
              \<not> tooOld rt (Some a) (timeWindowDays st1) p)"
proof -
  note eq = fallbackLoop_page [where feed = feed, OF assms(1,2,3) assms(4)[symmetric] assms(5)]
  have req: "requested st1 = requested st @ [start]"
    using assms(4) anchor_requested [of rt page "st\<lparr>requested := requested st @ [start]\<rparr>"]
    by simp
  have "(\<exists>p \<in> set page. tooOld rt (Some a) (timeWindowDays st1) p) \<longrightarrow>
      requested (fallbackLoop rt feed start st) = requested st @ [start]"
    using req by (simp only: eq) simp
  then show ?thesis
    using eq tooOld_dated tooOld_undated by blast
qed

theorem window_walk_witness:
  "(0::nat) < totalToFetch \<and> mondayFeed 0 = Inr mondayPage \<and> mondayPage \<noteq> []
   \<and> newestPaperDate (anchor utcRuntime mondayPage (initialState\<lparr>requested := requested initialState @ [0]\<rparr>))
       = Some (Some 1704672000000)
   \<and> fallbackLoop utcRuntime mondayFeed 0 initialState
       = \<lparr>allPapers = [examplePaper ''a'' ''2024-01-08T00:00:00Z'',
            examplePaper ''b'' ''2024-01-05T00:00:00Z'', examplePaper ''c'' ''2024-01-04T00:00:00Z''],
          newestPaperDate = Some (Some 1704672000000), timeWindowDays = 4, requested = [0]\<rparr>
   \<and> requested (fallbackLoop utcRuntime mondayFeed 0 initialState) = [0]"
proof -
  let ?st1 = "anchor utcRuntime mondayPage (initialState\<lparr>requested := requested initialState @ [0]\<rparr>)"
  have h1: "(0::nat) < totalToFetch" by (simp add: totalToFetch_def)
  have h2: "mondayFeed 0 = Inr mondayPage" by (simp add: mondayFeed_def)
  have h3: "mondayPage \<noteq> []" by (simp add: mondayPage_def)
  have st1: "?st1 = \<lparr>allPapers = [], newestPaperDate = Some (Some 1704672000000),
      timeWindowDays = 4, requested = [0]\<rparr>"
    by (simp add: eval_defs mondayPage_def)
  have h5: "newestPaperDate ?st1 = Some (Some 1704672000000)"
    by (simp add: st1)
  have old: "\<exists>p \<in> set mondayPage. tooOld utcRuntime (Some 1704672000000) (timeWindowDays ?st1) p"
    unfolding st1
    by (rule bexI [of _ "examplePaper ''d'' ''2024-01-03T00:00:00Z''"])
      (simp_all add: tooOld_def eval_defs mondayPage_def)
  have tw: "takeWhile (\<lambda>p. \<not> tooOld utcRuntime (Some 1704672000000) (timeWindowDays ?st1) p) mondayPage
      = [examplePaper ''a'' ''2024-01-08T00:00:00Z'',
            examplePaper ''b'' ''2024-01-05T00:00:00Z'', examplePaper ''c'' ''2024-01-04T00:00:00Z'']"
    unfolding st1 by (simp add: tooOld_def eval_defs mondayPage_def)
  have h4: "anchor utcRuntime mondayPage (initialState\<lparr>requested := requested initialState @ [0]\<rparr>)
      = ?st1"
    by (rule refl)
  note w = window_walk [where feed = mondayFeed and start = 0 and st = initialState,
      OF h1 h2 h3 h4 h5]
  have run: "fallbackLoop utcRuntime mondayFeed 0 initialState
       = ?st1\<lparr>allPapers := allPapers ?st1 @ [examplePaper ''a'' ''2024-01-08T00:00:00Z'',
            examplePaper ''b'' ''2024-01-05T00:00:00Z'', examplePaper ''c'' ''2024-01-04T00:00:00Z'']\<rparr>"
    using w old by (simp only: tw if_True)
  have req: "requested (fallbackLoop utcRuntime mondayFeed 0 initialState) = [0]"
    by (simp add: run st1)
  show ?thesis
    using h1 h2 h3 h5 req by (simp add: run st1)
qed

text \<open>
  Claim C8 as stated fails for a record without a readable date: its elapsed days are
  \<^verbatim>\<open>NaN\<close>, which is not at most the window, and the walk accepts it.
\<close>

theorem undated_record_accepted:
  "examplePaper ''b'' [] \<in> set (fetchPapersFallback utcRuntime undatedFeed)
   \<and> \<not> withinWindow
         (diffDays (the (newestPaperDate (fallbackRun utcRuntime undatedFeed)))
            (dateParse utcRuntime (published (examplePaper ''b'' []))))
         (timeWindowDays (fallbackRun utcRuntime undatedFeed))"
  unfolding fetchPapersFallback_def undated_run
  by (simp add: newMap_def mapValues_def withinWindow_def diffDays_def utcRuntime_def
      examplePaper_def)

subsection \<open>De-duplication\<close>

lemma foldl_setAdd_distinct: "distinct acc \<Longrightarrow> distinct (foldl setAdd acc xs)"
  by (induction xs arbitrary: acc) (simp_all add: setAdd_def)

lemma foldl_setAdd_set: "set (foldl setAdd acc xs) = set acc \<union> set xs"
  by (induction xs arbitrary: acc) (auto simp add: setAdd_def)

lemma distinct_arrayFromSet: "distinct (arrayFromSet xs)"
  by (simp add: arrayFromSet_def foldl_setAdd_distinct)

lemma set_arrayFromSet: "set (arrayFromSet xs) = set xs"
  by (simp add: arrayFromSet_def foldl_setAdd_set)

lemma foldl_update_distinct:
  "distinct (map fst m) \<Longrightarrow> distinct (map fst (foldl (\<lambda>m (k, v). AList.update k v m) m pairs))"
  by (induction pairs arbitrary: m) (auto simp add: distinct_update)

lemma foldl_update_subset:
  "set (foldl (\<lambda>m (k, v). AList.update k v m) m pairs) \<subseteq> set m \<union> set pairs"
proof (induction pairs arbitrary: m)
  case Nil
  then show ?case by simp
next
  case (Cons p pairs)
  obtain k v where p: "p = (k, v)" by (cases p) auto
  have "set (AList.update k v m) \<subseteq> set m \<union> {(k, v)}"
    by (induction m) auto
  then show ?case
    using Cons.IH [of "AList.update k v m"] p by auto
qed

lemma foldl_update_keys:
  "fst ` set (foldl (\<lambda>m (k, v). AList.update k v m) m pairs) = fst ` set m \<union> fst ` set pairs"
proof (induction pairs arbitrary: m)
  case Nil
  then show ?case by simp
next
  case (Cons p pairs)
  obtain k v where p: "p = (k, v)" by (cases p) auto
  have "fst ` set (AList.update k v m) = {k} \<union> fst ` set m"
    by (rule dom_update)
  then show ?case
    using Cons.IH [of "AList.update k v m"] p by auto
qed

lemma newMap_ids:
  "map paper_id (mapValues (newMap (map (\<lambda>item. (paper_id item, item)) xs)))
     = map fst (newMap (map (\<lambda>item. (paper_id item, item)) xs))"
proof -
  have "set (newMap (map (\<lambda>item. (paper_id item, item)) xs))
      \<subseteq> set (map (\<lambda>item. (paper_id item, item)) xs)"
    using foldl_update_subset [of "[]" "map (\<lambda>item. (paper_id item, item)) xs"]
    by (simp add: newMap_def)
  then have "\<forall>kv \<in> set (newMap (map (\<lambda>item. (paper_id item, item)) xs)). paper_id (snd kv) = fst kv"
    by auto
  then show ?thesis
    by (simp add: mapValues_def)
qed

lemma dedup_distinct:
  "distinct (map paper_id (mapValues (newMap (map (\<lambda>item. (paper_id item, item)) xs))))"
  unfolding newMap_ids by (simp add: newMap_def foldl_update_distinct)

lemma dedup_ids:
  "set (map paper_id (mapValues (newMap (map (\<lambda>item. (paper_id item, item)) xs)))) = paper_id ` set xs"
  unfolding newMap_ids using foldl_update_keys [of "[]" "map (\<lambda>item. (paper_id item, item)) xs"]
  by (simp add: newMap_def image_image)

lemma chunkLoop_concat:
  "chunkLoop details uniqueIds i acc = acc @ concat (map (answer details) (chunksFrom i uniqueIds))"
proof (induction "length uniqueIds - i" arbitrary: i acc rule: less_induct)
  case less
  show ?case
  proof (cases "i < length uniqueIds")
    case False
    then show ?thesis
      by (subst chunkLoop.simps, subst chunksFrom.simps) simp
  next
    case True
    then have smaller: "length uniqueIds - (i + chunkSize) < length uniqueIds - i"
      by (simp add: chunkSize_def)
    show ?thesis
      using True less.hyps [OF smaller]
      by (subst chunkLoop.simps, subst chunksFrom.simps)
        (simp add: answer_def Let_def split: sum.splits)
  qed
qed

text \<open>
  Claim C7, as amended. The result of the fallback path has every identifier at most once
  and loses no identifier of the accepted records. On the primary path the identifiers
  scraped from the listing pages are requested at most once each; when there are none the
  result is the fallback's, and otherwise it is the concatenation, in order, of what the
  chunks' requests contributed, with no de-duplication of the records.
\<close>

theorem fetch_dedup:
  "distinct (map paper_id (fetchPapersFallback rt feed))
   \<and> paper_id ` set (fetchPapersFallback rt feed) = paper_id ` set (allPapers (fallbackRun rt feed))
   \<and> distinct (uniqueIdsOf listing)
   \<and> (uniqueIdsOf listing = [] \<longrightarrow>
        fetchLatestPapers rt listing details feed = fetchPapersFallback rt feed)
   \<and> (uniqueIdsOf listing \<noteq> [] \<longrightarrow>
        fetchLatestPapers rt listing details feed
          = concat (map (answer details) (chunksFrom 0 (uniqueIdsOf listing))))"
proof -
  have "paper_id ` set (fetchPapersFallback rt feed) = paper_id ` set (allPapers (fallbackRun rt feed))"
    using dedup_ids [of "allPapers (fallbackRun rt feed)"]
    by (simp add: fetchPapersFallback_def Let_def)
  then show ?thesis
    by (simp add: fetchPapersFallback_def fetchLatestPapers_def Let_def dedup_distinct
        uniqueIdsOf_def distinct_arrayFromSet chunkLoop_concat)
qed


lemma listing_ids: "extractIdsFromHtml listingPage = [''2401.00001'', ''2401.00002'']"
  by (simp add: extractIdsFromHtml_def listingPage_def hrefAbs_def execAll.simps matchAt_def
      isDigit_def arrayFromSet_def setAdd_def Let_def)

lemma listing_unique: "uniqueIdsOf (\<lambda>url. Inr listingPage) = [''2401.00001'', ''2401.00002'']"
  by (simp add: uniqueIdsOf_def scrape_def listUrls_def listing_ids arrayFromSet_def setAdd_def)

lemma no_listing: "uniqueIdsOf (\<lambda>url. Inl TransportError) = []"
  by (simp add: uniqueIdsOf_def scrape_def listUrls_def arrayFromSet_def)

lemma repeating_run: "allPapers (fallbackRun utcRuntime repeatingFeed)
  = [examplePaper ''a'' ''2024-01-09T00:00:00Z'', examplePaper ''b'' ''2024-01-09T00:00:00Z'',
     examplePaper ''a'' ''2024-01-09T00:00:00Z'', examplePaper ''b'' ''2024-01-09T00:00:00Z'']"
  by (simp add: eval_defs repeatingFeed_def)

lemma repeating_fallback: "fetchPapersFallback utcRuntime repeatingFeed
  = [examplePaper ''a'' ''2024-01-09T00:00:00Z'', examplePaper ''b'' ''2024-01-09T00:00:00Z'']"
  unfolding fetchPapersFallback_def repeating_run
  by (simp add: newMap_def mapValues_def examplePaper_def)

theorem fetch_dedup_witness:
  "uniqueIdsOf (\<lambda>url. Inl TransportError) = []
   \<and> fetchLatestPapers utcRuntime (\<lambda>url. Inl TransportError) repeatingDetails repeatingFeed
       = [examplePaper ''a'' ''2024-01-09T00:00:00Z'', examplePaper ''b'' ''2024-01-09T00:00:00Z'']
   \<and> uniqueIdsOf (\<lambda>url. Inr listingPage) \<noteq> []
   \<and> fetchLatestPapers utcRuntime (\<lambda>url. Inr listingPage) (\<lambda>chunk. Inl TransportError) repeatingFeed
       = concat (map (answer (\<lambda>chunk. Inl TransportError)) (chunksFrom 0 [''2401.00001'', ''2401.00002'']))"
  using fetch_dedup [of utcRuntime repeatingFeed "\<lambda>url. Inl TransportError" repeatingDetails]
    fetch_dedup [of utcRuntime repeatingFeed "\<lambda>url. Inr listingPage" "\<lambda>chunk. Inl TransportError"]
  by (simp add: no_listing listing_unique repeating_fallback)

text \<open>
  Claim C7 as stated fails on the primary path when the detail service returns a record
  twice.
\<close>

theorem primary_path_repeats:
  "\<not> distinct (map paper_id
       (fetchLatestPapers utcRuntime (\<lambda>url. Inr listingPage) repeatingDetails repeatingFeed))"
  by (simp add: fetchLatestPapers_def listing_unique chunkLoop.simps slice_def chunkSize_def
      repeatingDetails_def examplePaper_def Let_def)

section \<open>Properties of the relevance filter\<close>

subsection \<open>Batches and reconciliation\<close>

lemma batchLoop_concat:
  "batchLoop apiKey parse respond papers i acc
     = acc @ concat (map (\<lambda>(j, batch). processBatch apiKey parse respond batch j)
                      (batchesFrom i papers))"
proof (induction "length papers - i" arbitrary: i acc rule: less_induct)
  case less
  show ?case
  proof (cases "i < length papers")
    case False
    then show ?thesis
      by (subst batchLoop.simps, subst batchesFrom.simps) simp
  next
    case True
    then have smaller: "length papers - (i + BATCH_SIZE) < length papers - i"
      by (simp add: BATCH_SIZE_def)
    show ?thesis
      using True less.hyps [OF smaller]
      by (subst batchLoop.simps, subst batchesFrom.simps) (simp add: Let_def)
  qed
qed

lemma batchesFrom_subset: "(j, batch) \<in> set (batchesFrom i xs) \<Longrightarrow> set batch \<subseteq> set xs"
proof (induction "length xs - i" arbitrary: i rule: less_induct)
  case less
  show ?case
  proof (cases "i < length xs")
    case False
    then show ?thesis
      using less.prems by (subst (asm) batchesFrom.simps) simp
  next
    case True
    then have smaller: "length xs - (i + BATCH_SIZE) < length xs - i"
      by (simp add: BATCH_SIZE_def)
    have "set (slice i (i + BATCH_SIZE) xs) \<subseteq> set xs"
      unfolding slice_def by (meson set_take_subset set_drop_subset subset_trans)
    then show ?thesis
      using True less.prems less.hyps [OF smaller]
      by (subst (asm) batchesFrom.simps) auto
  qed
qed

lemma find_in_batch: "find P batch = Some original \<Longrightarrow> original \<in> set batch \<and> P original"
  by (induction batch) (auto split: if_splits)

lemma find_none: "find P batch = None \<longleftrightarrow> (\<forall>p \<in> set batch. \<not> P p)"
  by (induction batch) auto

lemma reconcile_known:
  assumes "reconcile batch res = Inr (Some out)"
  shows "paper_id out \<in> paper_id ` set batch" and "Some (JStr (paper_id out)) = scoredId res"
    and "scoredId res \<in> batchIds batch"
proof -
  obtain original where f: "find (\<lambda>p. Some (JStr (paper_id p)) = member res ''id'') batch = Some original"
    and out: "paper_id out = paper_id original"
    using assms by (auto simp add: reconcile_def getProp_def split: if_splits option.splits)
  have o: "original \<in> set batch" "Some (JStr (paper_id original)) = member res ''id''"
    using find_in_batch [OF f] by simp_all
  show "paper_id out \<in> paper_id ` set batch"
    using o(1) out by simp
  show "Some (JStr (paper_id out)) = scoredId res"
    using o(2) out by (simp add: scoredId_def)
  show "scoredId res \<in> batchIds batch"
    unfolding batchIds_def scoredId_def o(2)[symmetric] using o(1) by (rule imageI)
qed

lemma reconcile_unknown:
  "res \<noteq> JNull \<Longrightarrow> scoredId res \<notin> batchIds batch \<Longrightarrow> reconcile batch res = Inr None"
proof -
  assume a: "res \<noteq> JNull" "scoredId res \<notin> batchIds batch"
  then have "find (\<lambda>p. Some (JStr (paper_id p)) = member res ''id'') batch = None"
    unfolding find_none by (auto simp add: batchIds_def scoredId_def image_iff)
  then show ?thesis
    using a(1) by (simp add: reconcile_def getProp_def)
qed

lemma reconcile_none:
  "reconcile batch res = Inr None \<Longrightarrow> scoredId res \<notin> batchIds batch"
  by (auto simp add: reconcile_def getProp_def scoredId_def batchIds_def find_none
      split: if_splits option.splits)

lemma mapResults_ids:
  "mapResults batch results = Inr ps \<Longrightarrow>
   map (\<lambda>out. Some (JStr (paper_id out))) (List.map_filter (\<lambda>p. p) ps)
     = filter (\<lambda>i. i \<in> batchIds batch) (map scoredId results)"
proof (induction results arbitrary: ps)
  case Nil
  then show ?case by simp
next
  case (Cons res results)
  then obtain p ps' where p: "reconcile batch res = Inr p"
    and ps': "mapResults batch results = Inr ps'" and ps: "ps = p # ps'"
    by (auto split: sum.splits)
  note ih = Cons.IH [OF ps']
  show ?case
  proof (cases p)
    case None
    then have "scoredId res \<notin> batchIds batch"
      using p reconcile_none by simp
    then show ?thesis
      using ih ps None by simp
  next
    case (Some out)
    then have r: "reconcile batch res = Inr (Some out)"
      using p by simp
    have "scoredId res \<in> batchIds batch" "Some (JStr (paper_id out)) = scoredId res"
      using reconcile_known [OF r] by simp_all
    then show ?thesis
      using ih ps Some by simp
  qed
qed

lemma mapResults_known:
  "mapResults batch results = Inr ps \<Longrightarrow> Some out \<in> set ps \<Longrightarrow> paper_id out \<in> paper_id ` set batch"
proof (induction results arbitrary: ps)
  case Nil
  then show ?case by simp
next
  case (Cons res results)
  then obtain p ps' where p: "reconcile batch res = Inr p"
    and ps': "mapResults batch results = Inr ps'" and ps: "ps = p # ps'"
    by (auto split: sum.splits)
  show ?case
  proof (cases "Some out = p")
    case True
    then show ?thesis using p reconcile_known(1) by metis
  next
    case False
    then have "Some out \<in> set ps'" using Cons.prems(2) ps by auto
    then show ?thesis using Cons.IH [OF ps'] by simp
  qed
qed

lemma set_map_filter_id: "set (List.map_filter (\<lambda>p. p) ps) = {out. Some out \<in> set ps}"
  by (induction ps) (auto split: option.splits)

lemma tryBatch_known:
  "tryBatch apiKey parse respond batch i = Inr outs \<Longrightarrow> out \<in> set outs \<Longrightarrow>
   paper_id out \<in> paper_id ` set batch"
  by (auto simp add: tryBatch_def set_map_filter_id
      split: sum.splits option.splits json.splits dest: mapResults_known)

lemma processBatch_known:
  "out \<in> set (processBatch apiKey parse respond batch i) \<Longrightarrow> paper_id out \<in> paper_id ` set batch"
  by (cases "tryBatch apiKey parse respond batch i")
    (auto simp add: processBatch_def dest: tryBatch_known)

text \<open>
  Claim C5. Every record \<^verbatim>\<open>processBatch\<close> returns carries the identifier of a paper of its
  batch, and every record of the filter's result the identifier of an input paper. A score
  object whose identifier is not the identifier of a paper of the batch yields \<^verbatim>\<open>null\<close>, which
  is filtered out: the records of a batch correspond, in order, to the score objects whose
  identifier is in the batch, and no other score object produces a record.
\<close>

theorem reconciliation_safety:
  "(\<forall>out \<in> set (processBatch apiKey parse respond batch startIndex).
      paper_id out \<in> paper_id ` set batch)
   \<and> (\<forall>outs. filterPapersWithLLM papers apiKey parse respond = Inr outs \<longrightarrow>
        (\<forall>out \<in> set outs. paper_id out \<in> paper_id ` set papers))
   \<and> (res \<noteq> JNull \<longrightarrow> scoredId res \<notin> batchIds batch \<longrightarrow> reconcile batch res = Inr None)
   \<and> (\<forall>ps. mapResults batch results = Inr ps \<longrightarrow>
        map (\<lambda>out. Some (JStr (paper_id out))) (List.map_filter (\<lambda>p. p) ps)
          = filter (\<lambda>i. i \<in> batchIds batch) (map scoredId results))"
proof (intro conjI allI impI ballI)
  fix out
  assume "out \<in> set (processBatch apiKey parse respond batch startIndex)"
  then show "paper_id out \<in> paper_id ` set batch"
    by (rule processBatch_known)
next
  fix outs out
  assume run: "filterPapersWithLLM papers apiKey parse respond = Inr outs" and out: "out \<in> set outs"
  have "outs = concat (map (\<lambda>(j, batch). processBatch apiKey parse respond batch j)
      (batchesFrom 0 papers))"
    using run by (simp add: filterPapersWithLLM_def batchLoop_concat)
  then obtain j batch where b: "(j, batch) \<in> set (batchesFrom 0 papers)"
    and o: "out \<in> set (processBatch apiKey parse respond batch j)"
    using out by auto
  have "paper_id out \<in> paper_id ` set batch"
    using o by (rule processBatch_known)
  then show "paper_id out \<in> paper_id ` set papers"
    using batchesFrom_subset [OF b] by auto
next
  assume "res \<noteq> JNull" "scoredId res \<notin> batchIds batch"
  then show "reconcile batch res = Inr None"
    by (rule reconcile_unknown)
next
  fix ps
  assume "mapResults batch results = Inr ps"
  then show "map (\<lambda>out. Some (JStr (paper_id out))) (List.map_filter (\<lambda>p. p) ps)
          = filter (\<lambda>i. i \<in> batchIds batch) (map scoredId results)"
    by (rule mapResults_ids)
qed

subsection \<open>The example batch, evaluated\<close>

lemmas llm_defs = processBatch_def tryBatch_def callSiliconFlow_def exampleParse_def getProp_def
  orElse_def reconcile_def scoreObject_def examplePaper_def scoredPaper_def scoredId_def
  batchIds_def

lemma example_batch:
  "processBatch ''key'' exampleParse (\<lambda>i. Content ''scores'')
     [examplePaper ''a'' [], examplePaper ''b'' []] 0 = [scoredPaper ''a'' 8, scoredPaper ''b'' 7]"
  by (simp add: llm_defs)

theorem reconciliation_safety_witness:
  "map paper_id (processBatch ''key'' exampleParse (\<lambda>i. Content ''scores'')
     [examplePaper ''a'' [], examplePaper ''b'' []] 0) = [''a'', ''b'']
   \<and> scoreObject ''zz'' 9 \<noteq> JNull
   \<and> scoredId (scoreObject ''zz'' 9) \<notin> batchIds [examplePaper ''a'' [], examplePaper ''b'' []]
   \<and> reconcile [examplePaper ''a'' [], examplePaper ''b'' []] (scoreObject ''zz'' 9) = Inr None
   \<and> mapResults [examplePaper ''a'' [], examplePaper ''b'' []]
        [scoreObject ''a'' 8, scoreObject ''zz'' 9, scoreObject ''b'' 7]
       = Inr [Some (scoredPaper ''a'' 8), None, Some (scoredPaper ''b'' 7)]
   \<and> filterPapersWithLLM [examplePaper ''a'' [], examplePaper ''b'' []] ''key'' exampleParse
        (\<lambda>i. Content ''scores'') = Inr [scoredPaper ''a'' 8, scoredPaper ''b'' 7]"
proof -
  have a: "scoreObject ''zz'' 9 \<noteq> JNull"
    by (simp add: scoreObject_def)
  have b: "scoredId (scoreObject ''zz'' 9) \<notin> batchIds [examplePaper ''a'' [], examplePaper ''b'' []]"
    by (simp add: llm_defs)
  have m: "mapResults [examplePaper ''a'' [], examplePaper ''b'' []]
        [scoreObject ''a'' 8, scoreObject ''zz'' 9, scoreObject ''b'' 7]
       = Inr [Some (scoredPaper ''a'' 8), None, Some (scoredPaper ''b'' 7)]"
    by (simp add: llm_defs)
  have f: "filterPapersWithLLM [examplePaper ''a'' [], examplePaper ''b'' []] ''key'' exampleParse
        (\<lambda>i. Content ''scores'') = Inr [scoredPaper ''a'' 8, scoredPaper ''b'' 7]"
    by (simp add: filterPapersWithLLM_def batchLoop.simps slice_def BATCH_SIZE_def example_batch)
  show ?thesis
    using a b m f
      reconciliation_safety [of "''key''" exampleParse "\<lambda>i. Content ''scores''"
        "[examplePaper ''a'' [], examplePaper ''b'' []]" 0
        "[examplePaper ''a'' [], examplePaper ''b'' []]" "scoreObject ''zz'' 9"
        "[scoreObject ''a'' 8, scoreObject ''zz'' 9, scoreObject ''b'' 7]"]
    by (simp add: example_batch scoredPaper_def)
qed

subsection \<open>Errors in the filter\<close>

lemma concat_empty: "concat (map (\<lambda>x. []) xs) = []"
  by (induction xs) simp_all

text \<open>
  Claim C4, as amended. \<^verbatim>\<open>filterPapersWithLLM\<close> never fails: its result is the concatenation of
  what the batches contribute, and a batch whose \<^verbatim>\<open>try\<close> block raises any error contributes
  nothing. With an absent key the call of every batch raises the missing-key error,
  whatever the service would have answered, each batch contributes nothing and the result is
  the empty sequence. (The check that refuses to start without a key is the pipeline
  driver's, before the first stage.)
\<close>

theorem filter_contains_errors:
  "filterPapersWithLLM papers apiKey parse respond
     = Inr (concat (map (\<lambda>(j, batch). processBatch apiKey parse respond batch j)
                     (batchesFrom 0 papers)))
   \<and> tryBatch [] parse respond batch startIndex = Inl MissingApiKey
   \<and> processBatch [] parse respond batch startIndex = []
   \<and> filterPapersWithLLM papers [] parse respond = Inr []
   \<and> (\<forall>e. tryBatch apiKey parse respond batch startIndex = Inl e \<longrightarrow>
        processBatch apiKey parse respond batch startIndex = [])"
proof -
  have run: "filterPapersWithLLM papers k parse respond
     = Inr (concat (map (\<lambda>(j, batch). processBatch k parse respond batch j)
                     (batchesFrom 0 papers)))" for k
    by (simp add: filterPapersWithLLM_def batchLoop_concat)
  have missing: "tryBatch [] parse respond b j = Inl MissingApiKey" for b j
    by (simp add: tryBatch_def callSiliconFlow_def)
  have batch: "processBatch [] parse respond b j = []" for b j
    by (simp add: processBatch_def missing)
  have "(\<lambda>(j, b). processBatch [] parse respond b j) = (\<lambda>x. [])"
    by (simp add: batch fun_eq_iff)
  then have "filterPapersWithLLM papers [] parse respond = Inr []"
    by (simp add: run concat_empty)
  then show ?thesis
    using run missing batch by (simp add: processBatch_def)
qed

theorem filter_contains_errors_witness:
  "tryBatch ''key'' exampleParse (\<lambda>i. RequestFailed) [examplePaper ''a'' []] 0 = Inl ApiError
   \<and> processBatch ''key'' exampleParse (\<lambda>i. RequestFailed) [examplePaper ''a'' []] 0 = []
   \<and> tryBatch ''key'' exampleParse (\<lambda>i. Content ''{'') [examplePaper ''a'' []] 0 = Inl SyntaxError
   \<and> processBatch ''key'' exampleParse (\<lambda>i. Content ''{'') [examplePaper ''a'' []] 0 = []
   \<and> tryBatch [] exampleParse (\<lambda>i. Content ''scores'') [examplePaper ''a'' []] 0 = Inl MissingApiKey"
proof -
  have a: "tryBatch ''key'' exampleParse (\<lambda>i. RequestFailed) [examplePaper ''a'' []] 0 = Inl ApiError"
    by (simp add: tryBatch_def callSiliconFlow_def)
  have b: "tryBatch ''key'' exampleParse (\<lambda>i. Content ''{'') [examplePaper ''a'' []] 0 = Inl SyntaxError"
    by (simp add: tryBatch_def callSiliconFlow_def exampleParse_def)
  show ?thesis
    using a b
      filter_contains_errors [of "[]" "''key''" exampleParse "\<lambda>i. RequestFailed"
        "[examplePaper ''a'' []]" 0]
      filter_contains_errors [of "[]" "''key''" exampleParse "\<lambda>i. Content ''{''"
        "[examplePaper ''a'' []]" 0]
      filter_contains_errors [of "[]" "''key''" exampleParse "\<lambda>i. Content ''scores''"
        "[examplePaper ''a'' []]" 0]
    by simp
qed

text \<open>
  Claim C4 as stated fails: with an absent key the filter goes through its batches and
  returns the empty sequence; it does not fail.
\<close>

theorem missing_key_not_surfaced:
  "filterPapersWithLLM [examplePaper ''a'' [], examplePaper ''b'' []] [] exampleParse
     (\<lambda>i. Content ''scores'') = Inr []
   \<and> filterPapersWithLLM [examplePaper ''a'' [], examplePaper ''b'' []] [] exampleParse
     (\<lambda>i. Content ''scores'') \<noteq> Inl MissingApiKey"
  by (simp add: filterPapersWithLLM_def batchLoop.simps slice_def BATCH_SIZE_def processBatch_def
      tryBatch_def callSiliconFlow_def)

section \<open>Properties of the deep analyzer\<close>

lemma analyzeSingle_id: "paper_id (analyzeSingle apiKey parse r paper) = paper_id paper"
  by (auto simp add: analyzeSingle_def tryAnalyze_def split: sum.splits option.splits)

lemma analyzeSingle_failed:
  "tryAnalyze apiKey parse r paper = Inl e \<Longrightarrow> analyzeSingle apiKey parse r paper = paper"
  by (simp add: analyzeSingle_def)

lemma analyzeSingle_fields:
  "\<exists>i m v. analyzeSingle apiKey parse r paper
     = paper\<lparr>innovations := i, methodology := m, paper_value := v\<rparr>"
proof (cases "tryAnalyze apiKey parse r paper")
  case (Inl e)
  then have "analyzeSingle apiKey parse r paper
      = paper\<lparr>innovations := innovations paper, methodology := methodology paper,
          paper_value := paper_value paper\<rparr>"
    by (simp add: analyzeSingle_def)
  then show ?thesis by blast
next
  case (Inr analyzed)
  then show ?thesis
    by (auto simp add: analyzeSingle_def tryAnalyze_def split: sum.splits option.splits)
qed

lemma deep_run:
  "deepAnalyzePapersWithLLM papers apiKey parse respond
     = Inr (map (\<lambda>i. analyzeSingle apiKey parse (respond i) (papers ! i)) [0..<length papers])"
proof -
  have "map (\<lambda>(i, paper). analyzeSingle apiKey parse (respond i) paper) (enumerate 0 papers)
      = map (\<lambda>i. analyzeSingle apiKey parse (respond i) (papers ! i)) [0..<length papers]"
    by (rule nth_equalityI) (simp_all add: nth_enumerate_eq)
  then show ?thesis
    by (simp add: deepAnalyzePapersWithLLM_def)
qed

lemma deep_ids:
  "map paper_id (map (\<lambda>i. analyzeSingle apiKey parse (respond i) (papers ! i)) [0..<length papers])
     = map paper_id papers"
  by (rule nth_equalityI) (simp_all add: analyzeSingle_id)

text \<open>
  Claim C9. The deep analyzer returns, at every position, the analysis of the input record
  at that position: the output has the length of the input, the identifier at each
  position is the input's, and the record differs from the input's at most in the three
  analysis fields.
\<close>

theorem order_preserved:
  "\<exists>outs. deepAnalyzePapersWithLLM papers apiKey parse respond = Inr outs
     \<and> length outs = length papers
     \<and> map paper_id outs = map paper_id papers
     \<and> (\<forall>i < length papers.
           paper_id (outs ! i) = paper_id (papers ! i)
           \<and> outs ! i = analyzeSingle apiKey parse (respond i) (papers ! i)
           \<and> (\<exists>inno meth val. outs ! i
                = (papers ! i)\<lparr>innovations := inno, methodology := meth, paper_value := val\<rparr>))"
  using analyzeSingle_fields
  by (simp add: deep_run deep_ids analyzeSingle_id del: map_map)

text \<open>
  Claim C6, as amended. The deep analyzer returns as many records as it was given, and
  every identifier occurs in the output as often as in the input: exactly once when the
  input has no repeated identifier. A record whose analysis fails (the call raises, the
  answer is not JSON, or it is \<^verbatim>\<open>null\<close>) is in the output as it came, so its three analysis
  fields are unset if they were.
\<close>

theorem set_preserved:
  "\<exists>outs. deepAnalyzePapersWithLLM papers apiKey parse respond = Inr outs
     \<and> length outs = length papers
     \<and> (\<forall>ident. count_list (map paper_id outs) ident = count_list (map paper_id papers) ident)
     \<and> (distinct (map paper_id papers) \<longrightarrow> distinct (map paper_id outs))
     \<and> (\<forall>i < length papers.
           (\<exists>e. tryAnalyze apiKey parse (respond i) (papers ! i) = Inl e) \<longrightarrow>
           outs ! i = papers ! i)"
  by (auto simp add: deep_run deep_ids analyzeSingle_failed simp del: map_map)

lemma second_fails:
  "tryAnalyze ''key'' exampleParse (mixedAnswers 1) (threeScored ! 1) = Inl TypeError"
  by (simp add: tryAnalyze_def callSiliconFlow_def mixedAnswers_def exampleParse_def getProp_def)

theorem order_preserved_witness:
  "(1::nat) < length threeScored
   \<and> map paper_id (projr (deepAnalyzePapersWithLLM threeScored ''key'' exampleParse mixedAnswers))
       = [''a'', ''b'', ''c'']
   \<and> paper_id (projr (deepAnalyzePapersWithLLM threeScored ''key'' exampleParse mixedAnswers) ! 1)
       = ''b''"
proof -
  obtain outs where run: "deepAnalyzePapersWithLLM threeScored ''key'' exampleParse mixedAnswers = Inr outs"
    and ids: "map paper_id outs = map paper_id threeScored"
    and nth: "\<forall>i < length threeScored. paper_id (outs ! i) = paper_id (threeScored ! i)"
    using order_preserved [of threeScored "''key''" exampleParse mixedAnswers] by blast
  have one: "(1::nat) < length threeScored"
    by (simp add: threeScored_def)
  then have "paper_id (outs ! 1) = paper_id (threeScored ! 1)"
    using nth by blast
  then show ?thesis
    unfolding run using one ids by (simp add: threeScored_def scoredPaper_def)
qed

theorem set_preserved_witness:
  "(1::nat) < length threeScored
   \<and> distinct (map paper_id threeScored)
   \<and> tryAnalyze ''key'' exampleParse (mixedAnswers 1) (threeScored ! 1) = Inl TypeError
   \<and> length (projr (deepAnalyzePapersWithLLM threeScored ''key'' exampleParse mixedAnswers)) = 3
   \<and> distinct (map paper_id
        (projr (deepAnalyzePapersWithLLM threeScored ''key'' exampleParse mixedAnswers)))
   \<and> projr (deepAnalyzePapersWithLLM threeScored ''key'' exampleParse mixedAnswers) ! 1
       = scoredPaper ''b'' 7"
proof -
  obtain outs where run: "deepAnalyzePapersWithLLM threeScored ''key'' exampleParse mixedAnswers = Inr outs"
    and len: "length outs = length threeScored"
    and dist: "distinct (map paper_id threeScored) \<longrightarrow> distinct (map paper_id outs)"
    and fail: "\<forall>i < length threeScored.
           (\<exists>e. tryAnalyze ''key'' exampleParse (mixedAnswers i) (threeScored ! i) = Inl e) \<longrightarrow>
           outs ! i = threeScored ! i"
    using set_preserved [of threeScored "''key''" exampleParse mixedAnswers] by blast
  have one: "(1::nat) < length threeScored"
    by (simp add: threeScored_def)
  have d: "distinct (map paper_id threeScored)"
    by (simp add: threeScored_def scoredPaper_def)
  have "outs ! 1 = threeScored ! 1"
    using fail one second_fails by blast
  then show ?thesis
    unfolding run using one d dist len second_fails by (simp add: threeScored_def)
qed

text \<open>
  Claim C6 as stated fails for an input that repeats an identifier, as the filter's output
  does when the scorer lists a paper twice: the identifier is in the output twice.
\<close>

theorem repeated_identifier_kept_twice:
  "count_list (map paper_id (projr (deepAnalyzePapersWithLLM
       [scoredPaper ''a'' 8, scoredPaper ''a'' 8] ''key'' exampleParse
       (\<lambda>i. Content ''analysis'')))) ''a'' = 2"
  by (simp add: deepAnalyzePapersWithLLM_def analyzeSingle_def tryAnalyze_def callSiliconFlow_def
      exampleParse_def getProp_def scoredPaper_def enumerate_simps)

end
